theory Spec2Isabelle
  imports Main "HOL-Library.Word"
begin

unbundle bit_operations_syntax

section \<open>The file wrapper registry\<close>

text \<open>
  The wrapper utilities (the source file that includes utils.h) keep two process-wide lists: \<^verbatim>\<open>file_table\<close>, the registered
  (path, constructor) pairs, and \<^verbatim>\<open>files\<close>, the open handles. A handle is a
  \<^verbatim>\<open>struct file *\<close>; two handles with equal fields are still two handles, so the model
  keeps the objects in a store indexed by address and the list \<^verbatim>\<open>files\<close> as a list of
  addresses, in list order.

  \<^verbatim>\<open>struct file\<close> and \<^verbatim>\<open>struct file_ops\<close> are declared in utils.h, which is not
  among the sources; the model has the fields that the code reads and writes. The
  length of \<open>dup_fds\<close> stands for \<^verbatim>\<open>ARRAY_SIZE(file->dup_fds)\<close>; no operation changes it.
  An \<^verbatim>\<open>int\<close> descriptor is modelled as an integer: the code only compares and stores
  descriptors. The lines written with \<^verbatim>\<open>fprintf(stderr, ...)\<close> are part of the state;
  \<^verbatim>\<open>PRINTF\<close> is a diagnostic macro of utils.h and its output is left out.
\<close>

type_synonym addr = nat

record file_ops =
  release :: bool \<comment> \<open>\<^verbatim>\<open>ops->release\<close> is not NULL\<close>

record struct_file =
  path :: string
  fd :: int
  dup_fds :: "int list"
  ops :: "file_ops option" \<comment> \<open>\<^verbatim>\<open>None\<close> is the NULL pointer\<close>

text \<open>
  A constructor \<^verbatim>\<open>struct file *(*open)(const char *path, int fd)\<close> builds a new object
  and returns it, or returns NULL. It is supplied by the caller of
  \<^verbatim>\<open>file_table_register\<close>; the model takes it as the function from the arguments to the
  content of the new object.
\<close>

record file_table_entry =
  entry_path :: string
  entry_open :: "string \<Rightarrow> int \<Rightarrow> struct_file option"

record registry =
  file_table :: "file_table_entry list"
  files :: "addr list"
  objs :: "addr \<Rightarrow> struct_file option" \<comment> \<open>the \<^verbatim>\<open>struct file\<close> objects\<close>
  next_obj :: addr \<comment> \<open>the address the next constructed object gets\<close>
  released :: "addr list" \<comment> \<open>the handles \<^verbatim>\<open>ops->release\<close> was invoked on, oldest first\<close>
  errs :: "string list" \<comment> \<open>the lines written to stderr by \<^verbatim>\<open>fprintf\<close>, oldest first\<close>
  libwrap_verbose :: bool
  allocs :: "bool list" \<comment> \<open>whether the next calls of \<^verbatim>\<open>calloc\<close> succeed; all do once it is empty\<close>

text \<open>
  \<^verbatim>\<open>file_put\<close>: the release capability is invoked when the handle has an operation table
  with a release entry. What the capability itself does is the vendor's; the model records
  the invocation. (\<^verbatim>\<open>file_put\<close> is only called on a handle taken from the list, so the
  test \<^verbatim>\<open>file != NULL\<close> holds.)
\<close>

definition file_put :: "registry \<Rightarrow> addr \<Rightarrow> struct_file \<Rightarrow> registry" where
  "file_put st p f =
     (case ops f of
        None \<Rightarrow> st
      | Some o1 \<Rightarrow> if release o1 then st\<lparr>released := released st @ [p]\<rparr> else st)"

text \<open>\<^verbatim>\<open>list_del(&file->list)\<close> and \<^verbatim>\<open>list_add_tail(&file->list, &files)\<close>.\<close>

definition list_del :: "registry \<Rightarrow> addr \<Rightarrow> registry" where
  "list_del st p = st\<lparr>files := removeAll p (files st)\<rparr>"

definition list_add_tail :: "registry \<Rightarrow> addr \<Rightarrow> registry" where
  "list_add_tail st p = st\<lparr>files := files st @ [p]\<rparr>"

text \<open>
  \<^verbatim>\<open>file_open\<close>: the loop over \<^verbatim>\<open>file_table\<close>, from the entries still to visit. The
  first entry whose path compares equal decides the call; its constructor's object is
  stored at the next address, every slot of \<open>dup_fds\<close> is set to \<open>-1\<close>, and the handle
  is appended to \<^verbatim>\<open>files\<close>.
\<close>

fun file_open_from :: "registry \<Rightarrow> file_table_entry list \<Rightarrow> string \<Rightarrow> int \<Rightarrow> addr option \<times> registry" where
  "file_open_from st [] pth d =
     (None, if libwrap_verbose st
            then st\<lparr>errs := errs st @ [''no wrapper for file `'' @ pth @ [CHR 0x27]]\<rparr>
            else st)"
| "file_open_from st (e # es) pth d =
     (if entry_path e = pth then
        (case entry_open e pth d of
           None \<Rightarrow> (None, st\<lparr>errs := errs st @ [''failed to wrap `'' @ pth @ [CHR 0x27]]\<rparr>)
         | Some f \<Rightarrow>
             let p = next_obj st;
                 f1 = f\<lparr>dup_fds := replicate (length (dup_fds f)) (- 1)\<rparr>;
                 st1 = st\<lparr>objs := (objs st)(p \<mapsto> f1), next_obj := Suc p\<rparr>
             in (Some p, list_add_tail st1 p))
      else file_open_from st es pth d)"

definition file_open :: "registry \<Rightarrow> string \<Rightarrow> int \<Rightarrow> addr option \<times> registry" where
  "file_open st pth d = file_open_from st (file_table st) pth d"

text \<open>\<^verbatim>\<open>file_lookup\<close>: the first handle of the list whose primary descriptor or one of
  whose slots equals \<open>d\<close>. An address with no object behind it cannot be in the list of
  the C program; the model skips it.\<close>

fun file_lookup_from :: "registry \<Rightarrow> addr list \<Rightarrow> int \<Rightarrow> addr option" where
  "file_lookup_from st [] d = None"
| "file_lookup_from st (p # ps) d =
     (case objs st p of
        None \<Rightarrow> file_lookup_from st ps d
      | Some f \<Rightarrow>
          if fd f = d then Some p
          else if d \<in> set (dup_fds f) then Some p
          else file_lookup_from st ps d)"

definition file_lookup :: "registry \<Rightarrow> int \<Rightarrow> addr option" where
  "file_lookup st d = file_lookup_from st (files st) d"

text \<open>\<^verbatim>\<open>file_find\<close>: the first handle of the list with the given path.\<close>

fun file_find_from :: "registry \<Rightarrow> addr list \<Rightarrow> string \<Rightarrow> addr option" where
  "file_find_from st [] pth = None"
| "file_find_from st (p # ps) pth =
     (case objs st p of
        None \<Rightarrow> file_find_from st ps pth
      | Some f \<Rightarrow> if path f = pth then Some p else file_find_from st ps pth)"

definition file_find :: "registry \<Rightarrow> string \<Rightarrow> addr option" where
  "file_find st pth = file_find_from st (files st) pth"

text \<open>The index of the first slot that satisfies a test, as the \<^verbatim>\<open>for\<close> loops over
  \<open>dup_fds\<close> find it.\<close>

fun first_slot :: "(int \<Rightarrow> bool) \<Rightarrow> int list \<Rightarrow> nat option" where
  "first_slot P [] = None"
| "first_slot P (x # xs) =
     (if P x then Some 0 else map_option Suc (first_slot P xs))"

text \<open>
  \<^verbatim>\<open>file_close\<close>: the loop over \<^verbatim>\<open>files\<close>. For each handle the primary descriptor is
  compared first; if it matches it is cleared and the handle is released unless some slot
  holds a value \<open>\<ge> 0\<close>. Otherwise the first slot equal to \<open>d\<close> is cleared, and the
  handle is released when the primary descriptor is \<open>-1\<close> and no slot differs from
  \<open>-1\<close>. Every branch that found \<open>d\<close> returns.
\<close>

fun file_close_from :: "registry \<Rightarrow> addr list \<Rightarrow> int \<Rightarrow> registry" where
  "file_close_from st [] d = st"
| "file_close_from st (p # ps) d =
     (case objs st p of
        None \<Rightarrow> file_close_from st ps d
      | Some f \<Rightarrow>
          if fd f = d then
            (let f1 = f\<lparr>fd := - 1\<rparr>;
                 st1 = st\<lparr>objs := (objs st)(p \<mapsto> f1)\<rparr>
             in if \<exists>x \<in> set (dup_fds f1). x \<ge> 0 then st1
                else file_put (list_del st1 p) p f1)
          else
            (case first_slot (\<lambda>x. x = d) (dup_fds f) of
               None \<Rightarrow> file_close_from st ps d
             | Some i \<Rightarrow>
                 let f1 = f\<lparr>dup_fds := (dup_fds f)[i := - 1]\<rparr>;
                     st1 = st\<lparr>objs := (objs st)(p \<mapsto> f1)\<rparr>
                 in if fd f1 \<noteq> - 1 then st1
                    else if \<exists>x \<in> set (dup_fds f1). x \<noteq> - 1 then st1
                    else file_put (list_del st1 p) p f1))"

definition file_close :: "registry \<Rightarrow> int \<Rightarrow> registry" where
  "file_close st d = file_close_from st (files st) d"

text \<open>
  \<^verbatim>\<open>file_table_register\<close>: one entry is allocated and appended per element of the
  table; the first failed allocation reports and returns, keeping the entries appended so
  far.
\<close>

fun file_table_register :: "registry \<Rightarrow> file_table_entry list \<Rightarrow> registry" where
  "file_table_register st [] = st"
| "file_table_register st (e # es) =
     (case allocs st of
        False # bs \<Rightarrow> st\<lparr>allocs := bs, errs := errs st @ [''out of memory'']\<rparr>
      | True # bs \<Rightarrow>
          file_table_register (st\<lparr>allocs := bs, file_table := file_table st @ [e]\<rparr>) es
      | [] \<Rightarrow> file_table_register (st\<lparr>file_table := file_table st @ [e]\<rparr>) es)"

text \<open>
  \<^verbatim>\<open>file_dup\<close>: the descriptor goes into the first slot holding a negative value; with no
  such slot the call only reports. The handle is passed by pointer and need not be in the
  list. (A pointer to no object is undefined behaviour in C; the model leaves the state as
  it is.)
\<close>

definition file_dup :: "registry \<Rightarrow> addr \<Rightarrow> int \<Rightarrow> registry" where
  "file_dup st p d =
     (case objs st p of
        None \<Rightarrow> st
      | Some f \<Rightarrow>
          (case first_slot (\<lambda>x. x < 0) (dup_fds f) of
             Some i \<Rightarrow> st\<lparr>objs := (objs st)(p \<mapsto> f\<lparr>dup_fds := (dup_fds f)[i := d]\<rparr>)\<rparr>
           | None \<Rightarrow> st\<lparr>errs := errs st @ [''out of FD slots'']\<rparr>))"

section \<open>Chip identity\<close>

text \<open>
  \<^verbatim>\<open>enum chip_id\<close> is declared in a header that is not among the sources; these are the
  enumerators the code uses. The state is the function-local static \<^verbatim>\<open>id\<close> together with
  what the calls did to the outside: the paths handed to \<^verbatim>\<open>fopen\<close> and the lines
  written to stderr.

  The file system is an argument of each call, so that it can differ from one call to the
  next: a path maps to \<open>None\<close> when \<^verbatim>\<open>fopen\<close> fails, to \<open>Some None\<close> when the file opens
  and \<^verbatim>\<open>fscanf\<close> converts nothing, and to \<open>Some (Some n)\<close> when \<^verbatim>\<open>fscanf\<close> stores \<open>n\<close>
  in the \<^verbatim>\<open>unsigned int\<close>.
\<close>

datatype chip_id = TEGRA_INVALID | TEGRA_UNKNOWN | TEGRA20 | TEGRA30 | TEGRA114

type_synonym filesystem = "string \<Rightarrow> 32 word option option"

record chip_state =
  id_chip :: chip_id \<comment> \<open>the static variable \<^verbatim>\<open>id\<close>\<close>
  opened :: "string list" \<comment> \<open>the paths passed to \<^verbatim>\<open>fopen\<close>, oldest first\<close>
  chip_errs :: "string list"

definition read_chip_id :: "filesystem \<Rightarrow> chip_state \<Rightarrow> string \<Rightarrow> chip_id \<times> chip_state" where
  "read_chip_id fs st pth =
     (let st1 = st\<lparr>opened := opened st @ [pth]\<rparr> in
      case fs pth of
        None \<Rightarrow> (TEGRA_INVALID, st1)
      | Some c \<Rightarrow>
          let (n, st2) =
                (case c of
                   None \<Rightarrow> (0, st1\<lparr>chip_errs := chip_errs st1 @ [''fscanf failed for '' @ pth]\<rparr>)
                 | Some v \<Rightarrow> (v, st1))
          in ((if n = 0x20 then TEGRA20
               else if n = 0x30 then TEGRA30
               else if n = 0x35 then TEGRA114
               else TEGRA_UNKNOWN), st2))"

definition chip_id_paths :: "string list" where
  "chip_id_paths =
     [''/sys/module/tegra_fuse/parameters/tegra_chip_id'',
      ''/sys/module/fuse/parameters/tegra_chip_id'',
      ''/sys/devices/soc0/soc_id'']"

text \<open>The \<^verbatim>\<open>for\<close> loop of \<^verbatim>\<open>tegra_chip_id\<close> over the paths still to try, with the two
  statements that follow it. Each iteration assigns the static variable.\<close>

fun tegra_chip_id_from :: "filesystem \<Rightarrow> chip_state \<Rightarrow> string list \<Rightarrow> chip_id \<times> chip_state" where
  "tegra_chip_id_from fs st [] =
     (TEGRA_UNKNOWN,
      st\<lparr>chip_errs := chip_errs st @ [''failed to identify SoC version''], id_chip := TEGRA_UNKNOWN\<rparr>)"
| "tegra_chip_id_from fs st (pth # pths) =
     (case read_chip_id fs st pth of
        (r, st1) \<Rightarrow>
          if r \<noteq> TEGRA_INVALID then (r, st1\<lparr>id_chip := r\<rparr>)
          else tegra_chip_id_from fs (st1\<lparr>id_chip := r\<rparr>) pths)"

definition tegra_chip_id :: "filesystem \<Rightarrow> chip_state \<Rightarrow> chip_id \<times> chip_state" where
  "tegra_chip_id fs st =
     (if id_chip st \<noteq> TEGRA_INVALID then (id_chip st, st)
      else tegra_chip_id_from fs st chip_id_paths)"

section \<open>Buffer objects and framebuffers (libgrate/grate.c)\<close>

text \<open>
  grate.c allocates its own records with \<^verbatim>\<open>calloc\<close> and obtains backing memory and
  framebuffers from libhost1x, which is not among the sources. The world below holds
  both: the live \<^verbatim>\<open>struct grate_bo\<close> and \<^verbatim>\<open>struct grate_framebuffer\<close> records, and
  the provider's objects. Every call that can fail (\<^verbatim>\<open>calloc\<close>,
  \<^verbatim>\<open>host1x_bo_create\<close>, \<^verbatim>\<open>host1x_bo_mmap\<close>, \<^verbatim>\<open>host1x_framebuffer_create\<close>) takes its
  outcome from \<open>outcomes\<close>, in call order; once the list is empty every call succeeds.
  The device handle \<^verbatim>\<open>grate->host1x\<close> is the world itself.

  \<^verbatim>\<open>size_t\<close> and \<^verbatim>\<open>unsigned long\<close> are machine words of one width, the type \<open>'a\<close> of the
  records, instantiated with \<open>'w word\<close> by the operations. A pointer into mapped memory
  is a backing object and a byte index into it.

  A pointer to no live record is undefined behaviour in C; the operations below then
  fail or leave the world as it is, and every theorem about them assumes the record
  live.
\<close>

type_synonym byte = "8 word"
type_synonym pointer = "addr \<times> nat"

record 'a grate_bo =
  bo :: "addr option" \<comment> \<open>\<^verbatim>\<open>struct host1x_bo *bo\<close>\<close>
  bo_size :: 'a \<comment> \<open>\<^verbatim>\<open>size_t size\<close>\<close>
  offset :: 'a \<comment> \<open>\<^verbatim>\<open>unsigned long offset\<close>\<close>

record grate_framebuffer =
  front :: "addr option"
  back_buffer :: "addr option" \<comment> \<open>the field \<^verbatim>\<open>back\<close>\<close>

record host1x_framebuffer =
  fb_width :: "32 word"
  fb_height :: "32 word"
  fb_format :: int \<comment> \<open>\<^verbatim>\<open>enum pixel_format\<close>, by its value\<close>
  fb_flags :: "32 word"

record 'a world =
  outcomes :: "bool list"
  next_addr :: addr
  bo_recs :: "addr \<Rightarrow> 'a grate_bo option"
  fb_recs :: "addr \<Rightarrow> grate_framebuffer option"
  host1x_bos :: "addr \<Rightarrow> byte list option" \<comment> \<open>the memory of each live backing object\<close>
  host1x_maps :: "addr set" \<comment> \<open>the backing objects mapped into the process\<close>
  host1x_fbs :: "addr \<Rightarrow> host1x_framebuffer option"
  flushed :: "(addr \<times> nat \<times> nat) list" \<comment> \<open>the ranges handed to \<^verbatim>\<open>host1x_bo_invalidate\<close>\<close>
  junk :: "nat \<Rightarrow> byte" \<comment> \<open>what fresh backing memory holds at each index\<close>
  grate_errs :: "string list"

definition next_outcome :: "'a world \<Rightarrow> bool \<times> 'a world" where
  "next_outcome w = (case outcomes w of [] \<Rightarrow> (True, w) | b # bs \<Rightarrow> (b, w\<lparr>outcomes := bs\<rparr>))"

text \<open>\<^verbatim>\<open>calloc(1, sizeof(struct grate_bo))\<close> and \<^verbatim>\<open>free\<close>: the new record is zeroed.\<close>

definition calloc_bo :: "('w::len) word world \<Rightarrow> addr option \<times> 'w word world" where
  "calloc_bo w =
     (case next_outcome w of
        (False, w1) \<Rightarrow> (None, w1)
      | (True, w1) \<Rightarrow>
          (Some (next_addr w1),
           w1\<lparr>next_addr := Suc (next_addr w1),
              bo_recs := (bo_recs w1)(next_addr w1 \<mapsto> \<lparr>bo = None, bo_size = 0, offset = 0\<rparr>)\<rparr>))"

definition free_bo :: "'a world \<Rightarrow> addr \<Rightarrow> 'a world" where
  "free_bo w p = w\<lparr>bo_recs := (bo_recs w)(p := None)\<rparr>"

definition calloc_fb :: "'a world \<Rightarrow> addr option \<times> 'a world" where
  "calloc_fb w =
     (case next_outcome w of
        (False, w1) \<Rightarrow> (None, w1)
      | (True, w1) \<Rightarrow>
          (Some (next_addr w1),
           w1\<lparr>next_addr := Suc (next_addr w1),
              fb_recs := (fb_recs w1)(next_addr w1 \<mapsto> \<lparr>front = None, back_buffer = None\<rparr>)\<rparr>))"

definition free_fb :: "'a world \<Rightarrow> addr \<Rightarrow> 'a world" where
  "free_fb w p = w\<lparr>fb_recs := (fb_recs w)(p := None)\<rparr>"

text \<open>Assignment to a field of a live record, \<^verbatim>\<open>bo->field = v\<close>.\<close>

definition set_bo :: "'a world \<Rightarrow> addr \<Rightarrow> ('a grate_bo \<Rightarrow> 'a grate_bo) \<Rightarrow> 'a world" where
  "set_bo w p g = w\<lparr>bo_recs := (bo_recs w)(p := map_option g (bo_recs w p))\<rparr>"

definition set_fb :: "'a world \<Rightarrow> addr \<Rightarrow> (grate_framebuffer \<Rightarrow> grate_framebuffer) \<Rightarrow> 'a world" where
  "set_fb w p g = w\<lparr>fb_recs := (fb_recs w)(p := map_option g (fb_recs w p))\<rparr>"

subsection \<open>The provider\<close>

text \<open>
  Modelled from the spec: \<^verbatim>\<open>host1x_bo_create\<close>, declared in libhost1x and missing from
  the sources. The spec gives the provider \<open>create(size, alignment) -> handle\<close>, a backing
  object of at least \<open>size\<close> bytes with no contract on its content, failing with an
  allocation error. The model allocates \<open>size\<close> bytes holding \<open>junk\<close>.
\<close>

definition host1x_bo_create :: "('w::len) word world \<Rightarrow> 'w word \<Rightarrow> nat \<Rightarrow> addr option \<times> 'w word world" where
  "host1x_bo_create w sz align =
     (case next_outcome w of
        (False, w1) \<Rightarrow> (None, w1)
      | (True, w1) \<Rightarrow>
          (Some (next_addr w1),
           w1\<lparr>next_addr := Suc (next_addr w1),
              host1x_bos := (host1x_bos w1)(next_addr w1 \<mapsto> map (junk w1) [0..<unat sz])\<rparr>))"

text \<open>
  Modelled from the spec: \<^verbatim>\<open>host1x_bo_mmap\<close>, \<open>mmap(handle) -> pointer\<close>, failing with a
  map error. A successful call maps the object and yields the pointer to its first byte;
  the provider's interface has no call that removes a mapping other than freeing the
  object. A NULL or dead handle cannot be mapped.
\<close>

definition host1x_bo_mmap :: "'a world \<Rightarrow> addr option \<Rightarrow> pointer option \<times> 'a world" where
  "host1x_bo_mmap w ho =
     (case next_outcome w of
        (False, w1) \<Rightarrow> (None, w1)
      | (True, w1) \<Rightarrow>
          (case ho of
             None \<Rightarrow> (None, w1)
           | Some h \<Rightarrow>
               if host1x_bos w1 h = None then (None, w1)
               else (Some (h, 0), w1\<lparr>host1x_maps := insert h (host1x_maps w1)\<rparr>)))"

text \<open>
  Modelled from the spec: \<^verbatim>\<open>host1x_bo_invalidate\<close>, \<open>invalidate(handle, offset, size)\<close>,
  which flushes the range to device-visible state and leaves the memory the CPU sees as
  it is; and \<^verbatim>\<open>host1x_bo_free\<close>, \<open>free(handle)\<close>, which releases the object and with it
  its mapping.
\<close>

definition host1x_bo_invalidate :: "'a world \<Rightarrow> addr option \<Rightarrow> nat \<Rightarrow> nat \<Rightarrow> 'a world" where
  "host1x_bo_invalidate w ho off n =
     (case ho of None \<Rightarrow> w | Some h \<Rightarrow> w\<lparr>flushed := flushed w @ [(h, off, n)]\<rparr>)"

definition host1x_bo_free :: "'a world \<Rightarrow> addr option \<Rightarrow> 'a world" where
  "host1x_bo_free w ho =
     (case ho of
        None \<Rightarrow> w
      | Some h \<Rightarrow> w\<lparr>host1x_bos := (host1x_bos w)(h := None), host1x_maps := host1x_maps w - {h}\<rparr>)"

text \<open>
  Modelled from the spec: \<^verbatim>\<open>host1x_framebuffer_create\<close> and
  \<^verbatim>\<open>host1x_framebuffer_free\<close>, the framebuffer provider's
  \<open>create(width, height, format, flags) -> handle\<close> and \<open>free(handle)\<close>.
\<close>

definition host1x_framebuffer_create ::
  "'a world \<Rightarrow> 32 word \<Rightarrow> 32 word \<Rightarrow> int \<Rightarrow> 32 word \<Rightarrow> addr option \<times> 'a world" where
  "host1x_framebuffer_create w width height format fl =
     (case next_outcome w of
        (False, w1) \<Rightarrow> (None, w1)
      | (True, w1) \<Rightarrow>
          (Some (next_addr w1),
           w1\<lparr>next_addr := Suc (next_addr w1),
              host1x_fbs := (host1x_fbs w1)(next_addr w1 \<mapsto>
                \<lparr>fb_width = width, fb_height = height, fb_format = format, fb_flags = fl\<rparr>)\<rparr>))"

definition host1x_framebuffer_free :: "'a world \<Rightarrow> addr option \<Rightarrow> 'a world" where
  "host1x_framebuffer_free w ho =
     (case ho of None \<Rightarrow> w | Some h \<Rightarrow> w\<lparr>host1x_fbs := (host1x_fbs w)(h := None)\<rparr>)"

text \<open>\<^verbatim>\<open>memcpy\<close> into mapped memory and a read from it. An access that leaves the object
  is undefined behaviour in C: the write then changes nothing and the read yields
  nothing.\<close>

definition memcpy :: "'a world \<Rightarrow> pointer \<Rightarrow> byte list \<Rightarrow> nat \<Rightarrow> 'a world" where
  "memcpy w ptr src n =
     (case host1x_bos w (fst ptr) of
        None \<Rightarrow> w
      | Some mem \<Rightarrow>
          if snd ptr + n \<le> length mem \<and> n \<le> length src
          then w\<lparr>host1x_bos := (host1x_bos w)(fst ptr \<mapsto>
                   take (snd ptr) mem @ take n src @ drop (snd ptr + n) mem)\<rparr>
          else w)"

definition mem_read :: "'a world \<Rightarrow> pointer \<Rightarrow> nat \<Rightarrow> byte list option" where
  "mem_read w ptr n =
     (case host1x_bos w (fst ptr) of
        None \<Rightarrow> None
      | Some mem \<Rightarrow>
          if snd ptr + n \<le> length mem then Some (take n (drop (snd ptr) mem)) else None)"

subsection \<open>The operations of grate.c\<close>

definition grate_bo_free :: "'a world \<Rightarrow> addr \<Rightarrow> 'a world" where
  "grate_bo_free w p =
     (case bo_recs w p of
        None \<Rightarrow> w
      | Some b \<Rightarrow> free_bo (host1x_bo_free w (bo b)) p)"

definition grate_bo_map :: "('w::len) word world \<Rightarrow> addr \<Rightarrow> pointer option \<times> 'w word world" where
  "grate_bo_map w p =
     (case bo_recs w p of
        None \<Rightarrow> (None, w)
      | Some b \<Rightarrow>
          (case host1x_bo_mmap w (bo b) of
             (None, w1) \<Rightarrow> (None, w1\<lparr>grate_errs := grate_errs w1 @ [''Failed to mmap BO'']\<rparr>)
           | (Some ptr, w1) \<Rightarrow> (Some (fst ptr, snd ptr + unat (offset b)), w1)))"

definition grate_bo_unmap :: "'a world \<Rightarrow> addr \<Rightarrow> pointer \<Rightarrow> 'a world" where
  "grate_bo_unmap w p ptr = w"

definition grate_bo_invalidate :: "('w::len) word world \<Rightarrow> addr \<Rightarrow> 'w word \<Rightarrow> 'w word world" where
  "grate_bo_invalidate w p sz =
     (case bo_recs w p of
        None \<Rightarrow> w
      | Some b \<Rightarrow> host1x_bo_invalidate w (bo b) (unat (offset b)) (unat sz))"

definition grate_bo_create ::
  "('w::len) word world \<Rightarrow> 'w word \<Rightarrow> 'w word \<Rightarrow> addr option \<times> 'w word world" where
  "grate_bo_create w sz flags =
     (case calloc_bo w of
        (None, w1) \<Rightarrow> (None, w1)
      | (Some p, w1) \<Rightarrow>
          (case host1x_bo_create w1 sz 2 of
             (None, w2) \<Rightarrow> (None, free_bo w2 p)
           | (Some h, w2) \<Rightarrow>
               (Some p, set_bo (set_bo w2 p (\<lambda>b. b\<lparr>bo := Some h\<rparr>)) p (\<lambda>b. b\<lparr>bo_size := sz\<rparr>))))"

definition grate_bo_create_from_data ::
  "('w::len) word world \<Rightarrow> 'w word \<Rightarrow> 'w word \<Rightarrow> byte list \<Rightarrow> addr option \<times> 'w word world" where
  "grate_bo_create_from_data w sz flags data =
     (case calloc_bo w of
        (None, w1) \<Rightarrow> (None, w1)
      | (Some p, w1) \<Rightarrow>
          (case host1x_bo_create w1 sz 2 of
             (None, w2) \<Rightarrow> (None, free_bo w2 p)
           | (Some h, w2) \<Rightarrow>
               let w3 = set_bo (set_bo w2 p (\<lambda>b. b\<lparr>bo := Some h\<rparr>)) p (\<lambda>b. b\<lparr>bo_size := sz\<rparr>)
               in (case grate_bo_map w3 p of
                     (None, w4) \<Rightarrow> (None, grate_bo_free w4 p)
                   | (Some ptr, w4) \<Rightarrow>
                       (Some p, grate_bo_invalidate (memcpy w4 ptr data (unat sz)) p sz))))"

definition grate_wrap_bo ::
  "('w::len) word world \<Rightarrow> addr \<Rightarrow> 'w word \<Rightarrow> addr option \<times> 'w word world" where
  "grate_wrap_bo w p offs =
     (case bo_recs w p of
        None \<Rightarrow> (None, w)
      | Some b \<Rightarrow>
          if offs \<ge> bo_size b then (None, w)
          else
            (case calloc_bo w of
               (None, w1) \<Rightarrow> (None, w1)
             | (Some q, w1) \<Rightarrow>
                 (Some q,
                  set_bo (set_bo (set_bo w1 q (\<lambda>v. v\<lparr>bo := bo b\<rparr>))
                      q (\<lambda>v. v\<lparr>bo_size := bo_size b - offs\<rparr>))
                    q (\<lambda>v. v\<lparr>offset := offset b + offs\<rparr>))))"

text \<open>
  \<^verbatim>\<open>grate_framebuffer_create\<close>. \<^verbatim>\<open>GRATE_DOUBLE_BUFFERED\<close> is a macro of grate.h, which is
  not among the sources: the mask is the first argument.
\<close>

definition grate_framebuffer_create ::
  "('w::len) word \<Rightarrow> 'a world \<Rightarrow> 32 word \<Rightarrow> 32 word \<Rightarrow> int \<Rightarrow> 'w word \<Rightarrow> addr option \<times> 'a world" where
  "grate_framebuffer_create GRATE_DOUBLE_BUFFERED w width height format flags =
     (case calloc_fb w of
        (None, w1) \<Rightarrow> (None, w1)
      | (Some p, w1) \<Rightarrow>
          (case host1x_framebuffer_create w1 width height format 0 of
             (None, w2) \<Rightarrow> (None, free_fb w2 p)
           | (Some fr, w2) \<Rightarrow>
               let w3 = set_fb w2 p (\<lambda>r. r\<lparr>front := Some fr\<rparr>) in
               if flags AND GRATE_DOUBLE_BUFFERED \<noteq> 0 then
                 (case host1x_framebuffer_create w3 width height format 0 of
                    (None, w4) \<Rightarrow> (None, free_fb (host1x_framebuffer_free w4 (Some fr)) p)
                  | (Some bk, w4) \<Rightarrow> (Some p, set_fb w4 p (\<lambda>r. r\<lparr>back_buffer := Some bk\<rparr>)))
               else (Some p, w3)))"

definition grate_framebuffer_free :: "'a world \<Rightarrow> addr option \<Rightarrow> 'a world" where
  "grate_framebuffer_free w po =
     (case po of
        None \<Rightarrow> w
      | Some p \<Rightarrow>
          (case fb_recs w p of
             None \<Rightarrow> w
           | Some r \<Rightarrow> free_fb (host1x_framebuffer_free (host1x_framebuffer_free w (front r)) (back_buffer r)) p))"

definition grate_framebuffer_swap :: "'a world \<Rightarrow> addr \<Rightarrow> 'a world" where
  "grate_framebuffer_swap w p =
     set_fb w p (\<lambda>r. if back_buffer r \<noteq> None then r\<lparr>front := back_buffer r, back_buffer := front r\<rparr> else r)"

section \<open>Reference counting in the registry: the invariant\<close>

text \<open>
  The references a handle holds: its primary descriptor unless cleared, and the
  descriptors in its occupied slots. \<open>-1\<close> marks a cleared primary descriptor and an
  empty slot.
\<close>

definition refs :: "struct_file \<Rightarrow> int list" where
  "refs f = (if fd f = - 1 then [] else [fd f]) @ filter (\<lambda>x. x \<noteq> - 1) (dup_fds f)"

definition has_release :: "struct_file \<Rightarrow> bool" where
  "has_release f = (case ops f of None \<Rightarrow> False | Some o1 \<Rightarrow> release o1)"

text \<open>
  The registry states that the wrapped \<^verbatim>\<open>open\<close>, \<^verbatim>\<open>dup\<close> and \<^verbatim>\<open>close\<close> calls produce
  when the descriptors they are given are those of the operating system: non-negative,
  and never shared by two live references. In such a state every listed handle has an
  object and holds at least one reference, its fields are \<open>-1\<close> or a descriptor, no
  descriptor is held twice, and a handle that was released is no longer listed. The code of
  \<^verbatim>\<open>file_close\<close> tests a slot with \<^verbatim>\<open>>= 0\<close> in one branch and with \<^verbatim>\<open>!= -1\<close> in the other;
  on these states the two tests agree.
\<close>

definition handle_ok :: "struct_file \<Rightarrow> bool" where
  "handle_ok f \<longleftrightarrow> - 1 \<le> fd f \<and> (\<forall>x \<in> set (dup_fds f). - 1 \<le> x) \<and> refs f \<noteq> [] \<and> distinct (refs f)"

definition obj_refs :: "registry \<Rightarrow> addr \<Rightarrow> int list" where
  "obj_refs st p = (case objs st p of None \<Rightarrow> [] | Some f \<Rightarrow> refs f)"

definition files_ok :: "registry \<Rightarrow> bool" where
  "files_ok st \<longleftrightarrow>
     distinct (files st) \<and>
     (\<forall>p \<in> set (files st). case objs st p of None \<Rightarrow> False | Some f \<Rightarrow> handle_ok f) \<and>
     (\<forall>p \<in> set (files st). \<forall>q \<in> set (files st).
        p \<noteq> q \<longrightarrow> set (obj_refs st p) \<inter> set (obj_refs st q) = {}) \<and>
     distinct (released st) \<and>
     (\<forall>p \<in> set (files st). p \<notin> set (released st) \<and> p < next_obj st) \<and>
     (\<forall>p \<in> set (released st). p < next_obj st)"

text \<open>A handle neither of whose fields equals the descriptor: the loops pass over it.\<close>

definition no_match :: "registry \<Rightarrow> int \<Rightarrow> addr \<Rightarrow> bool" where
  "no_match st d q = (case objs st q of None \<Rightarrow> True | Some f \<Rightarrow> fd f \<noteq> d \<and> d \<notin> set (dup_fds f))"

text \<open>What a call of \<^verbatim>\<open>file_close\<close> that found its descriptor at handle \<open>p\<close> leaves
  behind, given the object \<open>f1\<close> with that reference cleared.\<close>

definition settle :: "registry \<Rightarrow> addr \<Rightarrow> struct_file \<Rightarrow> registry" where
  "settle st p f1 =
     (if refs f1 = [] then file_put (list_del (st\<lparr>objs := (objs st)(p \<mapsto> f1)\<rparr>) p) p f1
      else st\<lparr>objs := (objs st)(p \<mapsto> f1)\<rparr>)"

text \<open>The release count of a handle with a release capability: none while it is listed,
  one once it is not.\<close>

definition once :: "registry \<Rightarrow> addr \<Rightarrow> bool" where
  "once st p \<longleftrightarrow>
     (if p \<in> set (files st)
      then (case objs st p of None \<Rightarrow> False | Some f \<Rightarrow> has_release f) \<and>
           count_list (released st) p = 0
      else count_list (released st) p = 1)"

section \<open>Example states\<close>

definition ex_file :: struct_file where
  "ex_file = \<lparr>path = ''/dev/nvhost-ctrl'', fd = 3, dup_fds = [4, - 1],
     ops = Some \<lparr>release = True\<rparr>\<rparr>"

definition ex_registry :: registry where
  "ex_registry = \<lparr>file_table = [], files = [0], objs = (\<lambda>_. None)(0 \<mapsto> ex_file),
     next_obj = 1, released = [], errs = [], libwrap_verbose = False, allocs = []\<rparr>"

definition ex_entry_a :: file_table_entry where
  "ex_entry_a = \<lparr>entry_path = ''/dev/a'', entry_open = (\<lambda>_ _. None)\<rparr>"

definition ex_entry_b :: file_table_entry where
  "ex_entry_b = \<lparr>entry_path = ''/dev/b'',
     entry_open = (\<lambda>pt d. Some \<lparr>path = pt, fd = d, dup_fds = [0, 0], ops = None\<rparr>)\<rparr>"

definition ex_entry_c :: file_table_entry where
  "ex_entry_c = \<lparr>entry_path = ''/dev/b'', entry_open = (\<lambda>_ _. None)\<rparr>"

definition ex_start :: registry where
  "ex_start = \<lparr>file_table = [ex_entry_a, ex_entry_b, ex_entry_c], files = [], objs = (\<lambda>_. None),
     next_obj = 0, released = [], errs = [], libwrap_verbose = False, allocs = []\<rparr>"

definition w0 :: "32 word world" where
  "w0 = \<lparr>outcomes = [], next_addr = 0, bo_recs = (\<lambda>_. None), fb_recs = (\<lambda>_. None),
    host1x_bos = (\<lambda>_. None), host1x_maps = {}, host1x_fbs = (\<lambda>_. None), flushed = [],
    junk = (\<lambda>_. 0), grate_errs = []\<rparr>"

definition ex_world :: "32 word world" where
  "ex_world = snd (grate_bo_create (w0\<lparr>outcomes := [True, True, False]\<rparr>) 4 0)"


section \<open>Properties\<close>

lemma first_slot_None: "first_slot P xs = None \<longleftrightarrow> (\<forall>x \<in> set xs. \<not> P x)"
  by (induction xs) auto

lemma first_slot_Some:
  "first_slot P xs = Some i \<Longrightarrow> i < length xs \<and> P (xs ! i) \<and> (\<forall>j < i. \<not> P (xs ! j))"
proof (induction xs arbitrary: i)
  case Nil
  then show ?case by simp
next
  case (Cons x xs)
  show ?case
  proof (cases "P x")
    case True
    with Cons.prems show ?thesis by simp
  next
    case False
    with Cons.prems obtain k where k: "first_slot P xs = Some k" "i = Suc k"
      by auto
    from Cons.IH [OF k(1)] False k(2) show ?thesis
      by (auto simp: nth_Cons split: nat.splits)
  qed
qed

lemma first_slot_append:
  "\<forall>y \<in> set pre. \<not> P y \<Longrightarrow> P x \<Longrightarrow> first_slot P (pre @ x # post) = Some (length pre)"
  by (induction pre) auto

lemma first_slot_eq_None: "d \<notin> set xs \<Longrightarrow> first_slot (\<lambda>x. x = d) xs = None"
  by (auto simp: first_slot_None)

lemma file_close_from_skip:
  "\<forall>q \<in> set ps. no_match st d q \<Longrightarrow> file_close_from st (ps @ rest) d = file_close_from st rest d"
  by (induction ps) (auto simp: no_match_def first_slot_eq_None split: option.splits)

lemma file_lookup_from_skip:
  "\<forall>q \<in> set ps. no_match st d q \<Longrightarrow> file_lookup_from st (ps @ rest) d = file_lookup_from st rest d"
  by (induction ps) (auto simp: no_match_def split: option.splits)

lemma in_refs: "d \<noteq> - 1 \<Longrightarrow> d \<in> set (refs f) \<longleftrightarrow> fd f = d \<or> d \<in> set (dup_fds f)"
  by (auto simp: refs_def)

lemma refs_no_minus1: "- 1 \<notin> set (refs f)"
  by (auto simp: refs_def)

lemma filter_update_remove1:
  assumes "i < length xs" "xs ! i = d" "P d" "\<not> P c" "distinct (filter P xs)"
  shows "filter P (xs[i := c]) = remove1 d (filter P xs)"
proof -
  have xs: "xs = take i xs @ d # drop (Suc i) xs"
    using assms(1,2) id_take_nth_drop [of i xs] by simp
  have upd: "xs[i := c] = take i xs @ c # drop (Suc i) xs"
    using assms(1) by (simp add: upd_conv_take_nth_drop)
  have "distinct (filter P (take i xs) @ d # filter P (drop (Suc i) xs))"
    using assms(3,5) by (subst (asm) xs) simp
  then have "d \<notin> set (filter P (take i xs))" by auto
  then have "d \<notin> set (take i xs)" using assms(3) by simp
  then have "remove1 d (filter P (take i xs) @ d # filter P (drop (Suc i) xs))
      = filter P (take i xs) @ filter P (drop (Suc i) xs)"
    by (simp add: remove1_append)
  moreover have "filter P xs = filter P (take i xs) @ d # filter P (drop (Suc i) xs)"
    using assms(3) by (subst xs) simp
  ultimately show ?thesis using assms(4) by (simp add: upd)
qed

lemma file_close_primary:
  assumes "files st = pre @ p # post" "\<forall>q \<in> set pre. no_match st d q"
    "objs st p = Some f" "fd f = d"
  shows "file_close st d =
     (if \<exists>x \<in> set (dup_fds f). 0 \<le> x then st\<lparr>objs := (objs st)(p \<mapsto> f\<lparr>fd := - 1\<rparr>)\<rparr>
      else file_put (list_del (st\<lparr>objs := (objs st)(p \<mapsto> f\<lparr>fd := - 1\<rparr>)\<rparr>) p) p (f\<lparr>fd := - 1\<rparr>))"
  using assms by (simp add: file_close_def file_close_from_skip Let_def)

lemma file_close_slot:
  assumes "files st = pre @ p # post" "\<forall>q \<in> set pre. no_match st d q"
    "objs st p = Some f" "fd f \<noteq> d" "first_slot (\<lambda>x. x = d) (dup_fds f) = Some i"
  shows "file_close st d =
     (if fd f \<noteq> - 1 \<or> (\<exists>x \<in> set ((dup_fds f)[i := - 1]). x \<noteq> - 1)
      then st\<lparr>objs := (objs st)(p \<mapsto> f\<lparr>dup_fds := (dup_fds f)[i := - 1]\<rparr>)\<rparr>
      else file_put (list_del (st\<lparr>objs := (objs st)(p \<mapsto> f\<lparr>dup_fds := (dup_fds f)[i := - 1]\<rparr>)\<rparr>) p) p
             (f\<lparr>dup_fds := (dup_fds f)[i := - 1]\<rparr>))"
  using assms by (simp add: file_close_def file_close_from_skip Let_def)

lemma others_no_match:
  assumes ok: "files_ok st" and p: "p \<in> set (files st)" "objs st p = Some f"
    and d: "d \<in> set (refs f)" and q: "q \<in> set (files st)" "q \<noteq> p"
  shows "no_match st d q"
proof -
  from d have d1: "d \<noteq> - 1" using refs_no_minus1 by metis
  from ok p q have "set (obj_refs st p) \<inter> set (obj_refs st q) = {}"
    unfolding files_ok_def by blast
  with d p(2) have "d \<notin> set (obj_refs st q)" by (auto simp: obj_refs_def)
  then show ?thesis
    using d1 by (auto simp: no_match_def obj_refs_def in_refs split: option.splits)
qed

lemma file_close_step:
  assumes ok: "files_ok st" and p: "p \<in> set (files st)" "objs st p = Some f"
    and d: "d \<in> set (refs f)"
  obtains f1 where "refs f1 = remove1 d (refs f)" "ops f1 = ops f" "path f1 = path f"
    "- 1 \<le> fd f1" "\<forall>x \<in> set (dup_fds f1). - 1 \<le> x"
    "length (dup_fds f1) = length (dup_fds f)"
    "file_close st d = settle st p f1"
proof -
  from d have d1: "d \<noteq> - 1" using refs_no_minus1 by metis
  from ok p have hok: "handle_ok f" unfolding files_ok_def by fastforce
  from ok have dist: "distinct (files st)" by (simp add: files_ok_def)
  from p(1) obtain pre post where split: "files st = pre @ p # post"
    by (auto dest: split_list)
  with dist have "p \<notin> set pre" by auto
  with split have pre: "\<forall>q \<in> set pre. no_match st d q"
    using others_no_match [OF ok p d] by auto
  show thesis
  proof (cases "fd f = d")
    case True
    let ?f1 = "f\<lparr>fd := - 1\<rparr>"
    from True d1 hok have nd: "d \<notin> set (dup_fds f)"
      by (auto simp: handle_ok_def refs_def)
    have r: "refs ?f1 = remove1 d (refs f)"
      using True d1 by (simp add: refs_def)
    have "(\<exists>x \<in> set (dup_fds f). 0 \<le> x) \<longleftrightarrow> refs ?f1 \<noteq> []"
    proof -
      have "(\<exists>x \<in> set (dup_fds f). 0 \<le> x) \<longleftrightarrow> (\<exists>x \<in> set (dup_fds f). x \<noteq> - 1)"
      proof -
        have "\<forall>x \<in> set (dup_fds f). - 1 \<le> x" using hok by (simp add: handle_ok_def)
        then have "\<forall>x \<in> set (dup_fds f). (0 \<le> x) = (x \<noteq> - 1)" by auto
        then show ?thesis by blast
      qed
      then show ?thesis by (auto simp: refs_def filter_empty_conv)
    qed
    then have "file_close st d = settle st p ?f1"
      using file_close_primary [OF split pre p(2) True] by (simp add: settle_def)
    with r hok show ?thesis
      by (intro that [of ?f1]) (auto simp: handle_ok_def)
  next
    case False
    with d d1 have din: "d \<in> set (dup_fds f)" by (simp add: in_refs)
    then obtain i where i: "first_slot (\<lambda>x. x = d) (dup_fds f) = Some i"
      by (cases "first_slot (\<lambda>x. x = d) (dup_fds f)") (auto simp: first_slot_None)
    from first_slot_Some [OF i] have i2: "i < length (dup_fds f)" "dup_fds f ! i = d"
      by auto
    let ?f1 = "f\<lparr>dup_fds := (dup_fds f)[i := - 1]\<rparr>"
    have "distinct (filter (\<lambda>x. x \<noteq> - 1) (dup_fds f))"
      using hok by (auto simp: handle_ok_def refs_def)
    then have fl: "filter (\<lambda>x. x \<noteq> - 1) ((dup_fds f)[i := - 1])
        = remove1 d (filter (\<lambda>x. x \<noteq> - 1) (dup_fds f))"
      using i2 d1 by (intro filter_update_remove1) auto
    have r: "refs ?f1 = remove1 d (refs f)"
      using False fl by (simp add: refs_def remove1_append)
    have "(fd f \<noteq> - 1 \<or> (\<exists>x \<in> set ((dup_fds f)[i := - 1]). x \<noteq> - 1)) \<longleftrightarrow> refs ?f1 \<noteq> []"
      by (auto simp: refs_def filter_empty_conv)
    then have c: "file_close st d = settle st p ?f1"
      using file_close_slot [OF split pre p(2) False i] by (simp add: settle_def)
    have "\<forall>x \<in> set ((dup_fds f)[i := - 1]). - 1 \<le> x"
      using hok by (auto simp: handle_ok_def dest!: set_update_subset_insert [THEN subsetD])
    with r c hok show ?thesis
      by (intro that [of ?f1]) (auto simp: handle_ok_def)
  qed
qed

lemma settle_simps:
  "files (settle st p f1) = (if refs f1 = [] then removeAll p (files st) else files st)"
  "objs (settle st p f1) = (objs st)(p \<mapsto> f1)"
  "released (settle st p f1) =
     (if refs f1 = [] \<and> has_release f1 then released st @ [p] else released st)"
  "next_obj (settle st p f1) = next_obj st"
  "file_table (settle st p f1) = file_table st"
  "errs (settle st p f1) = errs st"
  by (auto simp: settle_def file_put_def list_del_def has_release_def split: option.splits)

lemma obj_refs_settle:
  "obj_refs (settle st p f1) q = (if q = p then refs f1 else obj_refs st q)"
  by (simp add: obj_refs_def settle_simps)

lemma settle_ok:
  assumes ok: "files_ok st" and p: "p \<in> set (files st)" "objs st p = Some f"
    and f1: "set (refs f1) \<subseteq> set (refs f)" "distinct (refs f1)"
      "- 1 \<le> fd f1" "\<forall>x \<in> set (dup_fds f1). - 1 \<le> x"
  shows "files_ok (settle st p f1)"
proof -
  have op: "obj_refs st p = refs f" using p(2) by (simp add: obj_refs_def)
  have a: "distinct (files (settle st p f1))"
    using ok by (simp add: settle_simps files_ok_def distinct_removeAll)
  have b: "\<forall>q \<in> set (files (settle st p f1)).
      case objs (settle st p f1) q of None \<Rightarrow> False | Some g \<Rightarrow> handle_ok g"
    using ok f1 by (auto simp: settle_simps files_ok_def handle_ok_def)
  have c: "\<forall>q \<in> set (files (settle st p f1)). \<forall>r \<in> set (files (settle st p f1)).
      q \<noteq> r \<longrightarrow> set (obj_refs (settle st p f1) q) \<inter> set (obj_refs (settle st p f1) r) = {}"
  proof (intro ballI impI)
    fix q r
    assume q: "q \<in> set (files (settle st p f1))" and r: "r \<in> set (files (settle st p f1))"
      and ne: "q \<noteq> r"
    from q r have qr: "q \<in> set (files st)" "r \<in> set (files st)"
      by (auto simp: settle_simps split: if_splits)
    with ok ne have dj: "set (obj_refs st q) \<inter> set (obj_refs st r) = {}"
      unfolding files_ok_def by blast
    have "set (obj_refs (settle st p f1) q) \<subseteq> set (obj_refs st q)"
      "set (obj_refs (settle st p f1) r) \<subseteq> set (obj_refs st r)"
      using f1(1) op by (auto simp: obj_refs_settle)
    with dj show "set (obj_refs (settle st p f1) q) \<inter> set (obj_refs (settle st p f1) r) = {}"
      by blast
  qed
  have d: "distinct (released (settle st p f1))"
    using ok p(1) by (auto simp: settle_simps files_ok_def)
  have e: "\<forall>q \<in> set (files (settle st p f1)).
      q \<notin> set (released (settle st p f1)) \<and> q < next_obj (settle st p f1)"
    using ok by (auto simp: settle_simps files_ok_def)
  have g: "\<forall>q \<in> set (released (settle st p f1)). q < next_obj (settle st p f1)"
    using ok p(1) by (auto simp: settle_simps files_ok_def)
  from a b c d e g show ?thesis unfolding files_ok_def by blast
qed

lemma file_lookup_ref:
  assumes ok: "files_ok st" and p: "p \<in> set (files st)" "objs st p = Some f"
    and d: "d \<in> set (refs f)"
  shows "file_lookup st d = Some p"
proof -
  from d have d1: "d \<noteq> - 1" using refs_no_minus1 by metis
  from ok have dist: "distinct (files st)" by (simp add: files_ok_def)
  from p(1) obtain pre post where split: "files st = pre @ p # post"
    by (auto dest: split_list)
  with dist have "p \<notin> set pre" by auto
  with split have pre: "\<forall>q \<in> set pre. no_match st d q"
    using others_no_match [OF ok p d] by auto
  from d d1 have "fd f = d \<or> d \<in> set (dup_fds f)" by (simp add: in_refs)
  then show ?thesis
    using p(2) by (auto simp: file_lookup_def split file_lookup_from_skip [OF pre])
qed

lemma file_close_minus1_from:
  "\<forall>p \<in> set ps. (case objs st p of None \<Rightarrow> False | Some f \<Rightarrow> handle_ok f) \<Longrightarrow>
   file_close_from st ps (- 1) = st"
proof (induction ps)
  case Nil
  then show ?case by simp
next
  case (Cons p ps)
  then obtain f where f: "objs st p = Some f" "handle_ok f"
    by (auto split: option.splits)
  have same: "st\<lparr>objs := (objs st)(p \<mapsto> f)\<rparr> = st"
    using f(1) by (simp add: fun_upd_idem)
  show ?case
  proof (cases "fd f = - 1")
    case True
    then have "f\<lparr>fd := - 1\<rparr> = f" by simp
    then have "st\<lparr>objs := (objs st)(p \<mapsto> f\<lparr>fd := - 1\<rparr>)\<rparr> = st"
      using same by (simp only:)
    moreover have "\<exists>x \<in> set (dup_fds f). 0 \<le> x"
    proof -
      from f(2) True obtain x where "x \<in> set (dup_fds f)" "x \<noteq> - 1"
        by (auto simp: handle_ok_def refs_def filter_empty_conv)
      moreover from this f(2) have "- 1 \<le> x" by (simp add: handle_ok_def)
      ultimately have "x \<in> set (dup_fds f)" "0 \<le> x" by auto
      then show ?thesis by blast
    qed
    ultimately show ?thesis using f(1) True by (simp del: fun_upd_apply)
  next
    case False
    show ?thesis
    proof (cases "first_slot (\<lambda>x. x = - 1) (dup_fds f)")
      case None
      with Cons f(1) False show ?thesis by simp
    next
      case (Some i)
      from first_slot_Some [OF Some] have "(dup_fds f)[i := - 1] = dup_fds f"
        by (metis list_update_id)
      then have "f\<lparr>dup_fds := (dup_fds f)[i := - 1]\<rparr> = f" by simp
      with f(1) False Some same show ?thesis by simp
    qed
  qed
qed

lemma file_close_unref:
  assumes "files_ok st \<or> d \<noteq> - 1"
    and "\<forall>p \<in> set (files st). d \<notin> set (obj_refs st p)"
  shows "file_close st d = st"
proof (cases "d = - 1")
  case True
  with assms(1) have "files_ok st" by simp
  then show ?thesis
    using True file_close_minus1_from [of "files st" st]
    by (simp add: file_close_def files_ok_def)
next
  case False
  with assms(2) have "\<forall>q \<in> set (files st). no_match st d q"
    by (auto simp: no_match_def obj_refs_def in_refs split: option.splits)
  from file_close_from_skip [OF this, of "[]"] show ?thesis
    by (simp add: file_close_def)
qed

lemma file_close_ok: "files_ok st \<Longrightarrow> files_ok (file_close st d)"
proof (cases "\<forall>p \<in> set (files st). d \<notin> set (obj_refs st p)")
  case True
  assume "files_ok st"
  with True show ?thesis by (simp add: file_close_unref)
next
  case False
  assume ok: "files_ok st"
  from False obtain p where p: "p \<in> set (files st)" "d \<in> set (obj_refs st p)" by blast
  then obtain f where f: "objs st p = Some f" "d \<in> set (refs f)"
    by (cases "objs st p") (auto simp: obj_refs_def)
  from ok p(1) f(1) have hok: "handle_ok f" unfolding files_ok_def by fastforce
  from file_close_step [OF ok p(1) f] obtain f1 where
    f1: "refs f1 = remove1 d (refs f)" "- 1 \<le> fd f1" "\<forall>x \<in> set (dup_fds f1). - 1 \<le> x"
      "file_close st d = settle st p f1"
    by metis
  have "set (refs f1) \<subseteq> set (refs f)" "distinct (refs f1)"
    using f1(1) hok by (auto simp: handle_ok_def dest: notin_set_remove1)
  from settle_ok [OF ok p(1) f(1) this f1(2,3)] f1(4) show ?thesis by simp
qed

lemma has_release_cong: "ops f1 = ops f \<Longrightarrow> has_release f1 = has_release f"
  by (simp add: has_release_def)

lemma file_close_once:
  assumes ok: "files_ok st" and o: "once st p"
  shows "once (file_close st d) p"
proof (cases "\<forall>q \<in> set (files st). d \<notin> set (obj_refs st q)")
  case True
  with ok o show ?thesis by (simp add: file_close_unref)
next
  case False
  then obtain q where q: "q \<in> set (files st)" "d \<in> set (obj_refs st q)" by blast
  then obtain f where f: "objs st q = Some f" "d \<in> set (refs f)"
    by (cases "objs st q") (auto simp: obj_refs_def)
  from file_close_step [OF ok q(1) f] obtain f1 where
    f1: "ops f1 = ops f" "file_close st d = settle st q f1"
    by metis
  have hr: "has_release f1 = has_release f" using f1(1) by (rule has_release_cong)
  show ?thesis
  proof (cases "q = p")
    case True
    with o q(1) f(1) hr show ?thesis
      by (auto simp: once_def f1(2) settle_simps)
  next
    case False
    with o show ?thesis
      by (auto simp: once_def f1(2) settle_simps)
  qed
qed

lemma file_close_other:
  assumes ok: "files_ok st" and p: "p \<in> set (files st)" "objs st p = Some f"
    and e: "e \<notin> set (refs f)"
  shows "p \<in> set (files (file_close st e)) \<and> p \<notin> set (released (file_close st e))"
proof (cases "\<forall>q \<in> set (files st). e \<notin> set (obj_refs st q)")
  case True
  with ok p(1) show ?thesis by (simp add: file_close_unref) (simp add: files_ok_def)
next
  case False
  then obtain q where q: "q \<in> set (files st)" "e \<in> set (obj_refs st q)" by blast
  then obtain g where g: "objs st q = Some g" "e \<in> set (refs g)"
    by (cases "objs st q") (auto simp: obj_refs_def)
  from g e p(2) have ne: "q \<noteq> p" by auto
  from file_close_step [OF ok q(1) g] obtain g1 where
    g1: "file_close st e = settle st q g1"
    by metis
  from ok p(1) have "p \<notin> set (released st)" by (simp add: files_ok_def)
  with p(1) ne show ?thesis by (simp add: g1 settle_simps)
qed

lemma closes_once:
  "files_ok st \<Longrightarrow> once st p \<Longrightarrow>
   files_ok (foldl file_close st ds) \<and> once (foldl file_close st ds) p"
  by (induction ds arbitrary: st) (auto simp: file_close_ok file_close_once)

text \<open>
  Claim C1. In a registry state as above, let handle \<open>p\<close> hold the reference \<open>d\<close> (its
  primary descriptor or an occupied slot). Closing \<open>d\<close> keeps the invariant. If \<open>d\<close> was
  the last reference of \<open>p\<close>, the handle leaves the open-handle list and its release
  capability, if it has one, is invoked once by this call. Otherwise the list and the
  release log are unchanged, \<open>p\<close> holds its other references, and \<^verbatim>\<open>file_lookup\<close> returns
  \<open>p\<close> for each of them; with \<open>d\<close> the primary descriptor these are the occupied slots.
  Closing a descriptor that \<open>p\<close> does not hold neither removes nor releases \<open>p\<close>.
  Whatever descriptors are closed afterwards and in whatever order, the release capability
  of \<open>p\<close> has been invoked exactly once when \<open>p\<close> is no longer listed and not at all
  while it is.
\<close>

theorem file_close_release_once:
  assumes ok: "files_ok st" and p: "p \<in> set (files st)" "objs st p = Some f"
    and d: "d \<in> set (refs f)"
  shows "files_ok (file_close st d) \<and>
    (refs f = [d] \<longrightarrow>
       files (file_close st d) = removeAll p (files st) \<and>
       released (file_close st d) = released st @ (if has_release f then [p] else [])) \<and>
    (refs f \<noteq> [d] \<longrightarrow>
       files (file_close st d) = files st \<and>
       released (file_close st d) = released st \<and>
       obj_refs (file_close st d) p = remove1 d (refs f) \<and>
       (\<forall>x \<in> set (remove1 d (refs f)). file_lookup (file_close st d) x = Some p)) \<and>
    (\<forall>e. e \<notin> set (refs f) \<longrightarrow>
       p \<in> set (files (file_close st e)) \<and> p \<notin> set (released (file_close st e))) \<and>
    (has_release f \<longrightarrow>
       (\<forall>ds. count_list (released (foldl file_close st ds)) p =
          (if p \<in> set (files (foldl file_close st ds)) then 0 else 1)))"
proof -
  from ok p have hok: "handle_ok f" unfolding files_ok_def by fastforce
  have o: "\<forall>e. e \<notin> set (refs f) \<longrightarrow>
       p \<in> set (files (file_close st e)) \<and> p \<notin> set (released (file_close st e))"
    using file_close_other [OF ok p] by blast
  from file_close_step [OF ok p d] obtain f1 where
    f1: "refs f1 = remove1 d (refs f)" "ops f1 = ops f" "file_close st d = settle st p f1"
    by metis
  have ok': "files_ok (file_close st d)" using ok by (rule file_close_ok)
  have dist: "distinct (refs f)" using hok by (simp add: handle_ok_def)
  have last: "refs f1 = [] \<longleftrightarrow> refs f = [d]"
  proof
    assume "refs f1 = []"
    with f1(1) d show "refs f = [d]"
      by (cases "refs f") (auto split: if_splits)
  next
    assume "refs f = [d]"
    with f1(1) show "refs f1 = []" by simp
  qed
  have hr: "has_release f1 = has_release f" using f1(2) by (rule has_release_cong)
  have a: "refs f = [d] \<longrightarrow>
       files (file_close st d) = removeAll p (files st) \<and>
       released (file_close st d) = released st @ (if has_release f then [p] else [])"
    using last hr by (simp add: f1(3) settle_simps)
  have b: "refs f \<noteq> [d] \<longrightarrow>
       files (file_close st d) = files st \<and>
       released (file_close st d) = released st \<and>
       obj_refs (file_close st d) p = remove1 d (refs f) \<and>
       (\<forall>x \<in> set (remove1 d (refs f)). file_lookup (file_close st d) x = Some p)"
  proof
    assume ne: "refs f \<noteq> [d]"
    with last have ne1: "refs f1 \<noteq> []" by simp
    then have fl: "files (file_close st d) = files st"
      and rl: "released (file_close st d) = released st"
      and ob: "objs (file_close st d) p = Some f1"
      by (simp_all add: f1(3) settle_simps)
    have "\<forall>x \<in> set (refs f1). file_lookup (file_close st d) x = Some p"
      using file_lookup_ref [OF ok' _ ob] p(1) fl by simp
    with fl rl ob f1(1) show "files (file_close st d) = files st \<and>
       released (file_close st d) = released st \<and>
       obj_refs (file_close st d) p = remove1 d (refs f) \<and>
       (\<forall>x \<in> set (remove1 d (refs f)). file_lookup (file_close st d) x = Some p)"
      by (simp add: obj_refs_def)
  qed
  have c: "has_release f \<longrightarrow>
       (\<forall>ds. count_list (released (foldl file_close st ds)) p =
          (if p \<in> set (files (foldl file_close st ds)) then 0 else 1))"
  proof (intro impI allI)
    fix ds
    assume "has_release f"
    with ok p have "once st p"
      by (auto simp: once_def files_ok_def count_list_0_iff)
    from closes_once [OF ok this, of ds] show "count_list (released (foldl file_close st ds)) p =
          (if p \<in> set (files (foldl file_close st ds)) then 0 else 1)"
      by (auto simp: once_def split: if_splits)
  qed
  from ok' a b o c show ?thesis by blast
qed

text \<open>
  Claim C10. Closing a descriptor that no listed handle holds, neither as primary
  descriptor nor in an occupied slot, changes nothing: no release, no removal, no field
  of any handle. For a descriptor other than \<open>-1\<close> this needs nothing of the state; for
  \<open>-1\<close>, which equals every cleared field, it holds in the registry states above.
\<close>

theorem file_close_unreferenced:
  assumes "files_ok st \<or> d \<noteq> - 1"
    and "\<forall>p \<in> set (files st). d \<notin> set (obj_refs st p)"
  shows "file_close st d = st"
  using assms by (rule file_close_unref)

lemma file_open_from_skip:
  "\<forall>x \<in> set pre. entry_path x \<noteq> pth \<Longrightarrow>
   file_open_from st (pre @ rest) pth d = file_open_from st rest pth d"
  by (induction pre) auto

text \<open>
  Claim C5. \<^verbatim>\<open>file_open\<close> visits the table in registration order. With no entry for the
  path it returns none and leaves table, handle list and objects alone (it writes a line
  to stderr when verbose). Otherwise the first entry with exactly that path decides: if
  its constructor fails the call returns none and registers nothing (one line to stderr);
  if it succeeds the new handle has every slot set to \<open>-1\<close> and is appended to the
  open-handle list.
\<close>

theorem file_open_first_match:
  "((\<forall>x \<in> set (file_table st). entry_path x \<noteq> pth) \<longrightarrow>
      file_open st pth d =
        (None, if libwrap_verbose st
               then st\<lparr>errs := errs st @ [''no wrapper for file `'' @ pth @ [CHR 0x27]]\<rparr>
               else st)) \<and>
   (\<forall>pre e post.
      file_table st = pre @ e # post \<and> (\<forall>x \<in> set pre. entry_path x \<noteq> pth) \<and>
      entry_path e = pth \<longrightarrow>
      (entry_open e pth d = None \<longrightarrow>
         file_open st pth d =
           (None, st\<lparr>errs := errs st @ [''failed to wrap `'' @ pth @ [CHR 0x27]]\<rparr>)) \<and>
      (\<forall>f. entry_open e pth d = Some f \<longrightarrow>
         file_open st pth d =
           (Some (next_obj st),
            st\<lparr>objs := (objs st)(next_obj st \<mapsto>
                   f\<lparr>dup_fds := replicate (length (dup_fds f)) (- 1)\<rparr>),
               next_obj := Suc (next_obj st),
               files := files st @ [next_obj st]\<rparr>)))"
proof (intro conjI impI allI)
  assume "\<forall>x \<in> set (file_table st). entry_path x \<noteq> pth"
  from file_open_from_skip [OF this, of st "[]" d]
  show "file_open st pth d =
        (None, if libwrap_verbose st
               then st\<lparr>errs := errs st @ [''no wrapper for file `'' @ pth @ [CHR 0x27]]\<rparr>
               else st)"
    by (simp add: file_open_def)
next
  fix pre e post
  assume a: "file_table st = pre @ e # post \<and> (\<forall>x \<in> set pre. entry_path x \<noteq> pth) \<and>
      entry_path e = pth"
  assume "entry_open e pth d = None"
  with a show "file_open st pth d =
           (None, st\<lparr>errs := errs st @ [''failed to wrap `'' @ pth @ [CHR 0x27]]\<rparr>)"
    by (simp add: file_open_def file_open_from_skip)
next
  fix pre e post f
  assume a: "file_table st = pre @ e # post \<and> (\<forall>x \<in> set pre. entry_path x \<noteq> pth) \<and>
      entry_path e = pth"
  assume "entry_open e pth d = Some f"
  with a show "file_open st pth d =
           (Some (next_obj st),
            st\<lparr>objs := (objs st)(next_obj st \<mapsto>
                   f\<lparr>dup_fds := replicate (length (dup_fds f)) (- 1)\<rparr>),
               next_obj := Suc (next_obj st),
               files := files st @ [next_obj st]\<rparr>)"
    by (simp add: file_open_def file_open_from_skip list_add_tail_def Let_def)
qed

lemma first_slot_neg_None:
  "\<forall>y \<in> set xs. 0 \<le> y \<Longrightarrow> first_slot (\<lambda>x. x < 0) xs = None"
  by (simp add: first_slot_None not_less)

text \<open>
  Claim C6. \<^verbatim>\<open>file_dup\<close> stores the descriptor in the lowest empty slot and changes
  nothing else. With every slot occupied it reports on stderr and nothing else changes:
  the slots, the primary descriptor and the open-handle list are as before.
\<close>

theorem file_dup_first_empty_slot:
  assumes "objs st p = Some f"
  shows "(\<forall>pre x post.
            dup_fds f = pre @ x # post \<and> (\<forall>y \<in> set pre. 0 \<le> y) \<and> x < 0 \<longrightarrow>
            file_dup st p d = st\<lparr>objs := (objs st)(p \<mapsto> f\<lparr>dup_fds := pre @ d # post\<rparr>)\<rparr>) \<and>
         ((\<forall>y \<in> set (dup_fds f). 0 \<le> y) \<longrightarrow>
            file_dup st p d = st\<lparr>errs := errs st @ [''out of FD slots'']\<rparr>)"
proof (intro conjI impI allI)
  fix pre x post
  assume a: "dup_fds f = pre @ x # post \<and> (\<forall>y \<in> set pre. 0 \<le> y) \<and> x < 0"
  then have "first_slot (\<lambda>x. x < 0) (dup_fds f) = Some (length pre)"
    by (simp add: first_slot_append not_less)
  with assms a show "file_dup st p d = st\<lparr>objs := (objs st)(p \<mapsto> f\<lparr>dup_fds := pre @ d # post\<rparr>)\<rparr>"
    by (simp add: file_dup_def)
next
  assume "\<forall>y \<in> set (dup_fds f). 0 \<le> y"
  then have "first_slot (\<lambda>x. x < 0) (dup_fds f) = None" by (rule first_slot_neg_None)
  with assms show "file_dup st p d = st\<lparr>errs := errs st @ [''out of FD slots'']\<rparr>"
    by (simp add: file_dup_def)
qed

lemma ex_ok: "files_ok ex_registry"
  by (simp add: files_ok_def ex_registry_def ex_file_def handle_ok_def refs_def obj_refs_def)

text \<open>Claim C1 on the example registry: one handle, primary descriptor 3, one duplicate 4.\<close>

theorem file_close_release_once_witness:
  "files_ok ex_registry \<and> 0 \<in> set (files ex_registry) \<and> objs ex_registry 0 = Some ex_file \<and>
   3 \<in> set (refs ex_file) \<and> refs ex_file \<noteq> [3] \<and>
   files (file_close ex_registry 3) = [0] \<and> released (file_close ex_registry 3) = [] \<and>
   file_lookup (file_close ex_registry 3) 4 = Some 0"
proof -
  have h: "files_ok ex_registry" "0 \<in> set (files ex_registry)"
    "objs ex_registry 0 = Some ex_file" "3 \<in> set (refs ex_file)"
    by (simp_all add: ex_ok, simp_all add: ex_registry_def ex_file_def refs_def)
  have r: "refs ex_file \<noteq> [3]" "remove1 3 (refs ex_file) = [4]" "files ex_registry = [0]"
    "released ex_registry = []"
    by (simp_all add: ex_registry_def ex_file_def refs_def)
  from file_close_release_once [OF h] r h show ?thesis by simp
qed

text \<open>Claim C10 on the example registry, for the descriptors 7 and \<open>-1\<close>.\<close>

theorem file_close_unreferenced_witness:
  "files_ok ex_registry \<and> file_close ex_registry 7 = ex_registry \<and>
   file_close ex_registry (- 1) = ex_registry"
proof -
  have a: "\<forall>p \<in> set (files ex_registry). 7 \<notin> set (obj_refs ex_registry p)"
    "\<forall>p \<in> set (files ex_registry). - 1 \<notin> set (obj_refs ex_registry p)"
    by (simp_all add: ex_registry_def ex_file_def refs_def obj_refs_def)
  have b: "files_ok ex_registry \<or> (7::int) \<noteq> - 1" "files_ok ex_registry \<or> (- 1::int) \<noteq> - 1"
    by (simp_all add: ex_ok)
  from file_close_unreferenced [OF b(1) a(1)] file_close_unreferenced [OF b(2) a(2)] ex_ok
  show ?thesis by simp
qed

lemma files_ok_errs [simp]: "files_ok (st\<lparr>errs := e\<rparr>) = files_ok st"
  by (simp add: files_ok_def obj_refs_def)

lemma files_ok_empty:
  "files_ok \<lparr>file_table = t, files = [], objs = (\<lambda>_. None), next_obj = 0, released = [],
     errs = [], libwrap_verbose = v, allocs = a\<rparr>"
  by (simp add: files_ok_def)

lemma filter_update_insert:
  assumes "i < length xs" "\<not> P (xs ! i)" "P d"
  shows "filter P (xs[i := d]) = filter P (take i xs) @ d # filter P (drop (Suc i) xs)"
    and "filter P xs = filter P (take i xs) @ filter P (drop (Suc i) xs)"
proof -
  have "xs = take i xs @ xs ! i # drop (Suc i) xs"
    using assms(1) id_take_nth_drop by blast
  then have "filter P xs = filter P (take i xs @ xs ! i # drop (Suc i) xs)" by simp
  then show "filter P xs = filter P (take i xs) @ filter P (drop (Suc i) xs)"
    using assms(2) by simp
  show "filter P (xs[i := d]) = filter P (take i xs) @ d # filter P (drop (Suc i) xs)"
    using assms(1,3) by (simp add: upd_conv_take_nth_drop)
qed

lemma files_ok_update:
  assumes ok: "files_ok st" and p: "p \<in> set (files st)"
    and f1: "handle_ok f1"
    and dj: "\<forall>q \<in> set (files st). q \<noteq> p \<longrightarrow> set (refs f1) \<inter> set (obj_refs st q) = {}"
  shows "files_ok (st\<lparr>objs := (objs st)(p \<mapsto> f1)\<rparr>)"
proof -
  let ?st = "st\<lparr>objs := (objs st)(p \<mapsto> f1)\<rparr>"
  have r: "\<And>q. obj_refs ?st q = (if q = p then refs f1 else obj_refs st q)"
    by (simp add: obj_refs_def)
  have b: "\<forall>q \<in> set (files ?st). case objs ?st q of None \<Rightarrow> False | Some g \<Rightarrow> handle_ok g"
    using ok f1 by (auto simp: files_ok_def)
  have c: "\<forall>q \<in> set (files ?st). \<forall>s \<in> set (files ?st).
      q \<noteq> s \<longrightarrow> set (obj_refs ?st q) \<inter> set (obj_refs ?st s) = {}"
  proof (intro ballI impI)
    fix q s
    assume q: "q \<in> set (files ?st)" and s: "s \<in> set (files ?st)" and ne: "q \<noteq> s"
    from ok q s ne have "set (obj_refs st q) \<inter> set (obj_refs st s) = {}"
      unfolding files_ok_def by simp
    with dj q s ne show "set (obj_refs ?st q) \<inter> set (obj_refs ?st s) = {}"
      by (auto simp: r)
  qed
  from ok b c show ?thesis unfolding files_ok_def by simp
qed

lemma file_dup_ok:
  assumes ok: "files_ok st" and p: "p \<in> set (files st)" and d: "0 \<le> d"
    and fresh: "\<forall>q \<in> set (files st). d \<notin> set (obj_refs st q)"
  shows "files_ok (file_dup st p d)"
proof -
  from ok p obtain f where f: "objs st p = Some f" "handle_ok f"
    unfolding files_ok_def by (cases "objs st p") fastforce+
  show ?thesis
  proof (cases "first_slot (\<lambda>x. x < 0) (dup_fds f)")
    case None
    with f(1) ok show ?thesis by (simp add: file_dup_def)
  next
    case (Some i)
    let ?f1 = "f\<lparr>dup_fds := (dup_fds f)[i := d]\<rparr>"
    from first_slot_Some [OF Some] have i: "i < length (dup_fds f)" "dup_fds f ! i < 0" by auto
    from i f(2) have "dup_fds f ! i = - 1"
      by (force simp: handle_ok_def in_set_conv_nth)
    then have np: "\<not> (dup_fds f ! i \<noteq> - 1)" by simp
    from d have pd: "d \<noteq> - 1" by auto
    note fu = filter_update_insert [where P = "\<lambda>x. x \<noteq> - 1", OF i(1) np pd]
    from fresh p f(1) have dn: "d \<notin> set (refs f)" by (auto simp: obj_refs_def)
    have sub: "set (refs ?f1) = insert d (set (refs f))"
      by (auto simp: refs_def fu)
    have dist: "distinct (refs ?f1)"
      using f(2) dn by (auto simp: handle_ok_def refs_def fu)
    have "\<forall>x \<in> set ((dup_fds f)[i := d]). - 1 \<le> x"
      using f(2) d by (auto simp: handle_ok_def dest!: set_update_subset_insert [THEN subsetD])
    with f(2) dist sub have h1: "handle_ok ?f1"
      by (auto simp: handle_ok_def)
    have dj: "\<forall>q \<in> set (files st). q \<noteq> p \<longrightarrow> set (refs ?f1) \<inter> set (obj_refs st q) = {}"
    proof (intro ballI impI)
      fix q assume q: "q \<in> set (files st)" "q \<noteq> p"
      with ok p have "set (obj_refs st p) \<inter> set (obj_refs st q) = {}"
        unfolding files_ok_def by blast
      with f(1) fresh q(1) show "set (refs ?f1) \<inter> set (obj_refs st q) = {}"
        by (auto simp: sub obj_refs_def)
    qed
    from files_ok_update [OF ok p h1 dj] f(1) Some show ?thesis
      by (simp add: file_dup_def)
  qed
qed

lemma file_open_from_Some:
  "file_open_from st es pth d = (Some p, st') \<Longrightarrow>
   \<exists>f. p = next_obj st \<and>
     st' = st\<lparr>objs := (objs st)(p \<mapsto> f\<lparr>dup_fds := replicate (length (dup_fds f)) (- 1)\<rparr>),
              next_obj := Suc p, files := files st @ [p]\<rparr>"
  by (induction es) (auto simp: list_add_tail_def Let_def split: if_splits option.splits)

lemma file_open_ok:
  assumes ok: "files_ok st" and op: "file_open st pth d = (Some p, st')"
    and f': "objs st' p = Some f'" "0 \<le> fd f'"
    and fresh: "\<forall>q \<in> set (files st). fd f' \<notin> set (obj_refs st q)"
  shows "files_ok st'"
proof -
  from op obtain f where p: "p = next_obj st"
    and st': "st' = st\<lparr>objs := (objs st)(p \<mapsto> f\<lparr>dup_fds := replicate (length (dup_fds f)) (- 1)\<rparr>),
              next_obj := Suc p, files := files st @ [p]\<rparr>"
    unfolding file_open_def by (blast dest: file_open_from_Some)
  from f' st' have ff: "f' = f\<lparr>dup_fds := replicate (length (dup_fds f)) (- 1)\<rparr>" by simp
  have rf: "refs f' = [fd f']" using f'(2) by (auto simp: refs_def ff)
  have hk: "handle_ok f'" using f'(2) by (simp add: handle_ok_def rf) (simp add: ff)
  have lt: "\<forall>q \<in> set (files st). q < p" using ok p by (simp add: files_ok_def)
  have r: "\<And>q. obj_refs st' q = (if q = p then refs f' else obj_refs st q)"
    by (simp add: obj_refs_def st' ff)
  have a: "distinct (files st')" using ok lt by (auto simp: st' files_ok_def)
  have b: "\<forall>q \<in> set (files st'). case objs st' q of None \<Rightarrow> False | Some g \<Rightarrow> handle_ok g"
    using ok hk lt by (auto simp: st' files_ok_def ff)
  have c: "\<forall>q \<in> set (files st'). \<forall>s \<in> set (files st').
      q \<noteq> s \<longrightarrow> set (obj_refs st' q) \<inter> set (obj_refs st' s) = {}"
  proof (intro ballI impI)
    fix q s
    assume q: "q \<in> set (files st')" and s: "s \<in> set (files st')" and ne: "q \<noteq> s"
    have "q \<in> set (files st) \<Longrightarrow> s \<in> set (files st) \<Longrightarrow>
        set (obj_refs st q) \<inter> set (obj_refs st s) = {}"
      using ok ne unfolding files_ok_def by simp
    with q s ne fresh lt show "set (obj_refs st' q) \<inter> set (obj_refs st' s) = {}"
      by (auto simp: r rf) (auto simp: st')
  qed
  have e: "distinct (released st')" "\<forall>q \<in> set (files st'). q \<notin> set (released st') \<and> q < next_obj st'"
    "\<forall>q \<in> set (released st'). q < next_obj st'"
    using ok p by (auto simp: st' files_ok_def)
  from a b c e show ?thesis unfolding files_ok_def by blast
qed

text \<open>Claim C5 on a table of three entries, two of them for the same path.\<close>

theorem file_open_first_match_witness:
  "fst (file_open ex_start ''/dev/b'' 5) = Some 0 \<and>
   files (snd (file_open ex_start ''/dev/b'' 5)) = [0] \<and>
   objs (snd (file_open ex_start ''/dev/b'' 5)) 0 =
     Some \<lparr>path = ''/dev/b'', fd = 5, dup_fds = [- 1, - 1], ops = None\<rparr> \<and>
   file_open ex_start ''/dev/a'' 5 =
     (None, ex_start\<lparr>errs := errs ex_start @ [''failed to wrap `'' @ ''/dev/a'' @ [CHR 0x27]]\<rparr>) \<and>
   file_open ex_start ''/dev/c'' 5 = (None, ex_start)"
proof -
  have t: "file_table ex_start = [ex_entry_a] @ ex_entry_b # [ex_entry_c] \<and>
      (\<forall>x \<in> set [ex_entry_a]. entry_path x \<noteq> ''/dev/b'') \<and> entry_path ex_entry_b = ''/dev/b''"
    by (simp add: ex_start_def ex_entry_a_def ex_entry_b_def)
  have c: "entry_open ex_entry_b ''/dev/b'' 5 =
      Some \<lparr>path = ''/dev/b'', fd = 5, dup_fds = [0, 0], ops = None\<rparr>"
    by (simp add: ex_entry_b_def)
  note 1 = file_open_first_match [of ex_start "''/dev/b''" 5, THEN conjunct2, rule_format,
      of "[ex_entry_a]" ex_entry_b "[ex_entry_c]", OF t, THEN conjunct2, rule_format, OF c]
  have t2: "file_table ex_start = [] @ ex_entry_a # [ex_entry_b, ex_entry_c] \<and>
      (\<forall>x \<in> set []. entry_path x \<noteq> ''/dev/a'') \<and> entry_path ex_entry_a = ''/dev/a''"
    by (simp add: ex_start_def ex_entry_a_def)
  have c2: "entry_open ex_entry_a ''/dev/a'' 5 = None"
    by (simp add: ex_entry_a_def)
  note 2 = file_open_first_match [of ex_start "''/dev/a''" 5, THEN conjunct2, rule_format,
      of "[]" ex_entry_a "[ex_entry_b, ex_entry_c]", OF t2, THEN conjunct1, rule_format, OF c2]
  have t3: "\<forall>x \<in> set (file_table ex_start). entry_path x \<noteq> ''/dev/c''"
    by (simp add: ex_start_def ex_entry_a_def ex_entry_b_def ex_entry_c_def)
  have v: "libwrap_verbose ex_start = False" "next_obj ex_start = 0" "files ex_start = []"
    by (simp_all add: ex_start_def)
  note 3 = file_open_first_match [of ex_start "''/dev/c''" 5, THEN conjunct1, THEN mp, OF t3]
  show ?thesis
    unfolding 1 2 3 by (simp add: v)
qed

text \<open>Claim C6 on the example registry: the second slot is filled, then none is left.\<close>

theorem file_dup_first_empty_slot_witness:
  "objs ex_registry 0 = Some ex_file \<and>
   file_dup ex_registry 0 9 =
     ex_registry\<lparr>objs := (objs ex_registry)(0 \<mapsto> ex_file\<lparr>dup_fds := [4, 9]\<rparr>)\<rparr> \<and>
   file_dup (ex_registry\<lparr>objs := (objs ex_registry)(0 \<mapsto> ex_file\<lparr>dup_fds := [4, 9]\<rparr>)\<rparr>) 0 11 =
     ex_registry\<lparr>objs := (objs ex_registry)(0 \<mapsto> ex_file\<lparr>dup_fds := [4, 9]\<rparr>),
                 errs := [''out of FD slots'']\<rparr>"
proof -
  let ?st1 = "ex_registry\<lparr>objs := (objs ex_registry)(0 \<mapsto> ex_file\<lparr>dup_fds := [4, 9]\<rparr>)\<rparr>"
  have a: "objs ex_registry 0 = Some ex_file" by (simp add: ex_registry_def)
  have b: "dup_fds ex_file = [4] @ (- 1) # [] \<and> (\<forall>y \<in> set [4 :: int]. 0 \<le> y) \<and> (- 1 :: int) < 0"
    by (simp add: ex_file_def)
  have c: "objs ?st1 0 = Some (ex_file\<lparr>dup_fds := [4, 9]\<rparr>)" by simp
  have d: "\<forall>y \<in> set (dup_fds (ex_file\<lparr>dup_fds := [4, 9]\<rparr>)). 0 \<le> y" by simp
  have e: "errs ex_registry = []" by (simp add: ex_registry_def)
  from file_dup_first_empty_slot [OF a, of 9, THEN conjunct1, rule_format, of "[4]" "- 1" "[]", OF b]
  have 1: "file_dup ex_registry 0 9 = ?st1" by simp
  from file_dup_first_empty_slot [OF c, of 11] d
  have 2: "file_dup ?st1 0 11 = ?st1\<lparr>errs := errs ?st1 @ [''out of FD slots'']\<rparr>" by blast
  from a 1 2 e show ?thesis by simp
qed

lemma read_chip_id_opened: "opened (snd (read_chip_id fs st pth)) = opened st @ [pth]"
  by (simp add: read_chip_id_def Let_def split: option.splits)

lemma tegra_chip_id_from_result:
  "tegra_chip_id_from fs st pths = (r, st1) \<Longrightarrow> r \<noteq> TEGRA_INVALID \<and> id_chip st1 = r"
proof (induction pths arbitrary: st)
  case Nil
  then show ?case by auto
next
  case (Cons pth pths)
  obtain r0 st0 where r0: "read_chip_id fs st pth = (r0, st0)" by (cases "read_chip_id fs st pth")
  show ?case
  proof (cases "r0 = TEGRA_INVALID")
    case True
    with Cons.prems r0 have "tegra_chip_id_from fs (st0\<lparr>id_chip := r0\<rparr>) pths = (r, st1)" by simp
    then show ?thesis by (rule Cons.IH)
  next
    case False
    with Cons.prems r0 show ?thesis by auto
  qed
qed

lemma tegra_chip_id_result:
  "tegra_chip_id fs st = (r, st1) \<Longrightarrow> r \<noteq> TEGRA_INVALID \<and> id_chip st1 = r"
  by (auto simp: tegra_chip_id_def split: if_splits dest: tegra_chip_id_from_result)

lemma tegra_chip_id_again:
  "tegra_chip_id fs2 (snd (tegra_chip_id fs1 st)) = tegra_chip_id fs1 st"
proof -
  obtain r st1 where r: "tegra_chip_id fs1 st = (r, st1)" by (cases "tegra_chip_id fs1 st")
  from tegra_chip_id_result [OF r] have "tegra_chip_id fs2 st1 = (r, st1)"
    by (simp add: tegra_chip_id_def)
  then show ?thesis by (simp add: r)
qed

lemma tegra_chip_id_later:
  "foldl (\<lambda>s f. snd (tegra_chip_id f s)) (snd (tegra_chip_id fs1 st)) fss = snd (tegra_chip_id fs1 st)"
  by (induction fss) (simp_all add: tegra_chip_id_again)

text \<open>
  Claim C7. After a first call of \<^verbatim>\<open>tegra_chip_id\<close>, whatever it found, any later call
  returns the same value and leaves the state as it is, so opens no path, even with a
  different file system; the same holds after any number of calls in between. The value
  is never \<open>TEGRA_INVALID\<close>.
\<close>

theorem tegra_chip_id_memoized:
  "tegra_chip_id fs2 (snd (tegra_chip_id fs1 st)) = tegra_chip_id fs1 st \<and>
   fst (tegra_chip_id fs1 st) \<noteq> TEGRA_INVALID \<and>
   tegra_chip_id fs2 (foldl (\<lambda>s f. snd (tegra_chip_id f s)) (snd (tegra_chip_id fs1 st)) fss)
     = tegra_chip_id fs1 st \<and>
   opened (snd (tegra_chip_id fs2 (snd (tegra_chip_id fs1 st)))) = opened (snd (tegra_chip_id fs1 st))"
proof -
  obtain r st1 where r: "tegra_chip_id fs1 st = (r, st1)" by (cases "tegra_chip_id fs1 st")
  from tegra_chip_id_result [OF r] have "fst (tegra_chip_id fs1 st) \<noteq> TEGRA_INVALID"
    by (simp add: r)
  then show ?thesis by (simp add: tegra_chip_id_again tegra_chip_id_later)
qed

lemmas bo_defs = grate_bo_create_from_data_def calloc_bo_def host1x_bo_create_def
  next_outcome_def set_bo_def free_bo_def grate_bo_map_def host1x_bo_mmap_def grate_bo_free_def
  host1x_bo_free_def memcpy_def grate_bo_invalidate_def host1x_bo_invalidate_def

lemma create_from_data_Some:
  assumes "grate_bo_create_from_data w sz fl data = (Some p, w1)" "length data = unat sz"
  shows "\<exists>h. bo_recs w1 p = Some \<lparr>bo = Some h, bo_size = sz, offset = 0\<rparr> \<and>
     host1x_bos w1 h = Some data \<and> h \<in> host1x_maps w1"
  using assms
  by (auto simp: bo_defs Let_def split: list.splits bool.splits if_splits prod.splits option.splits)

lemma map_live_same_memory:
  assumes "grate_bo_map w p = (Some ptr, w2)" "bo_recs w p = Some b"
  shows "\<exists>h. bo b = Some h \<and> ptr = (h, unat (offset b)) \<and> host1x_bos w2 = host1x_bos w"
  using assms
  by (auto simp: grate_bo_map_def host1x_bo_mmap_def next_outcome_def
      split: list.splits bool.splits if_splits prod.splits option.splits)

text \<open>
  Claim C4. When \<^verbatim>\<open>grate_bo_create_from_data\<close> succeeds for \<open>size\<close> bytes of data, mapping
  the returned buffer object and reading \<open>size\<close> bytes at the returned pointer yields the
  data. (The lower bound on \<open>size\<close> is not needed.)
\<close>

theorem create_from_data_roundtrip:
  assumes "grate_bo_create_from_data w sz fl data = (Some p, w1)"
    and "length data = unat sz"
    and "grate_bo_map w1 p = (Some ptr, w2)"
  shows "mem_read w2 ptr (unat sz) = Some data"
proof -
  from create_from_data_Some [OF assms(1,2)] obtain h where
    h: "bo_recs w1 p = Some \<lparr>bo = Some h, bo_size = sz, offset = 0\<rparr>"
      "host1x_bos w1 h = Some data"
    by blast
  from map_live_same_memory [OF assms(3) h(1)] have "ptr = (h, 0)" "host1x_bos w2 = host1x_bos w1"
    by auto
  with h(2) assms(2) show ?thesis by (simp add: mem_read_def)
qed

text \<open>
  Claim C8, amended. When \<^verbatim>\<open>grate_bo_create_from_data\<close> returns successfully, the
  mapping it created to copy the data has not been released: the backing object of the
  returned buffer object is still mapped when the call returns, so the mapping outlives
  the call. In detail: the returned record is the one allocated by the call, with the new
  backing object, the given size and offset 0; that backing object is live; the only
  effect of the call on the set of mappings is to add the mapping of that object; the
  copied range has been handed to the provider's invalidate; and a later
  \<^verbatim>\<open>grate_bo_unmap\<close> still leaves the object mapped.
\<close>

theorem create_from_data_mapping_persists:
  assumes "grate_bo_create_from_data w sz fl data = (Some p, w1)"
  shows "p = next_addr w \<and>
     bo_recs w1 p = Some \<lparr>bo = Some (Suc p), bo_size = sz, offset = 0\<rparr> \<and>
     host1x_bos w1 (Suc p) \<noteq> None \<and>
     Suc p \<in> host1x_maps w1 \<and>
     host1x_maps w1 = insert (Suc p) (host1x_maps w) \<and>
     flushed w1 = flushed w @ [(Suc p, 0, unat sz)] \<and>
     Suc p \<in> host1x_maps (grate_bo_unmap w1 p ptr)"
  using assms
  by (auto simp: bo_defs grate_bo_unmap_def Let_def
      split: list.splits bool.splits if_splits prod.splits option.splits)

lemma calloc_bo_ok:
  "fst (next_outcome w) \<Longrightarrow>
   calloc_bo w = (Some (next_addr w),
     (snd (next_outcome w))\<lparr>next_addr := Suc (next_addr w),
        bo_recs := (bo_recs w)(next_addr w \<mapsto> \<lparr>bo = None, bo_size = 0, offset = 0\<rparr>)\<rparr>)"
  by (auto simp: calloc_bo_def next_outcome_def split: list.splits)

lemma calloc_bo_fail:
  "\<not> fst (next_outcome w) \<Longrightarrow> calloc_bo w = (None, snd (next_outcome w))"
  by (auto simp: calloc_bo_def next_outcome_def split: list.splits)

lemma next_outcome_fields:
  "next_addr (snd (next_outcome w)) = next_addr w"
  "bo_recs (snd (next_outcome w)) = bo_recs w"
  "host1x_bos (snd (next_outcome w)) = host1x_bos w"
  "host1x_maps (snd (next_outcome w)) = host1x_maps w"
  "outcomes (snd (next_outcome w)) = tl (outcomes w)"
  by (auto simp: next_outcome_def split: list.splits)

lemma wrap_range: "bo_recs w p = Some b \<Longrightarrow> bo_size b \<le> offs \<Longrightarrow> grate_wrap_bo w p offs = (None, w)"
  by (simp add: grate_wrap_bo_def)

lemma wrap_nomem:
  "bo_recs w p = Some b \<Longrightarrow> \<not> fst (next_outcome w) \<Longrightarrow> fst (grate_wrap_bo w p offs) = None"
  by (simp add: grate_wrap_bo_def calloc_bo_fail)

lemma wrap_ok:
  assumes "bo_recs w p = Some b" "offs < bo_size b" "fst (next_outcome w)"
  shows "grate_wrap_bo w p offs =
    (Some (next_addr w),
     (snd (next_outcome w))\<lparr>next_addr := Suc (next_addr w),
        bo_recs := (bo_recs w)(next_addr w \<mapsto>
          \<lparr>bo = bo b, bo_size = bo_size b - offs, offset = offset b + offs\<rparr>)\<rparr>)"
  using assms by (simp add: grate_wrap_bo_def calloc_bo_ok set_bo_def not_le [symmetric])

text \<open>
  Claim C3, amended. For a live buffer object and an offset below its size,
  \<^verbatim>\<open>grate_wrap_bo\<close> succeeds when the record for the view can be allocated: the view has
  the parent's backing object, the parent's size less the offset, and the parent's offset
  plus the offset (the sum of the machine words, which is the sum of the numbers whenever
  the parent's offset plus its size fits the word, as it does for every buffer object that
  the create and wrap operations make), and no backing memory is created or changed. When the allocation fails
  it returns no object. For an offset not below the size it returns no object and
  changes nothing.
\<close>

theorem wrap_bo_view:
  fixes w :: "('w::len) word world"
  assumes "bo_recs w p = Some b"
  shows "(offs < bo_size b \<and> fst (next_outcome w) \<longrightarrow>
      fst (grate_wrap_bo w p offs) = Some (next_addr w) \<and>
      bo_recs (snd (grate_wrap_bo w p offs)) (next_addr w) =
        Some \<lparr>bo = bo b, bo_size = bo_size b - offs, offset = offset b + offs\<rparr> \<and>
      unat (bo_size b - offs) = unat (bo_size b) - unat offs \<and>
      (unat (offset b) + unat (bo_size b) < 2 ^ LENGTH('w) \<longrightarrow>
         unat (offset b + offs) = unat (offset b) + unat offs) \<and>
      host1x_bos (snd (grate_wrap_bo w p offs)) = host1x_bos w) \<and>
    (offs < bo_size b \<and> \<not> fst (next_outcome w) \<longrightarrow> fst (grate_wrap_bo w p offs) = None) \<and>
    (bo_size b \<le> offs \<longrightarrow> grate_wrap_bo w p offs = (None, w))"
proof (intro conjI impI)
  assume a: "offs < bo_size b \<and> fst (next_outcome w)"
  then have eq: "grate_wrap_bo w p offs =
    (Some (next_addr w),
     (snd (next_outcome w))\<lparr>next_addr := Suc (next_addr w),
        bo_recs := (bo_recs w)(next_addr w \<mapsto>
          \<lparr>bo = bo b, bo_size = bo_size b - offs, offset = offset b + offs\<rparr>)\<rparr>)"
    using wrap_ok [OF assms] by simp
  show "fst (grate_wrap_bo w p offs) = Some (next_addr w)" by (simp add: eq)
  show "bo_recs (snd (grate_wrap_bo w p offs)) (next_addr w) =
        Some \<lparr>bo = bo b, bo_size = bo_size b - offs, offset = offset b + offs\<rparr>"
    by (simp add: eq)
  show "unat (bo_size b - offs) = unat (bo_size b) - unat offs"
    using a by (simp add: unat_sub less_imp_le)
  show "host1x_bos (snd (grate_wrap_bo w p offs)) = host1x_bos w"
    by (simp add: eq next_outcome_fields)
  assume "unat (offset b) + unat (bo_size b) < 2 ^ LENGTH('w)"
  moreover from a have "unat offs < unat (bo_size b)" by (simp add: word_less_nat_alt)
  ultimately have "unat (offset b) + unat offs < 2 ^ LENGTH('w)" by linarith
  then show "unat (offset b + offs) = unat (offset b) + unat offs"
    by (rule unat_add_lem [THEN iffD1])
next
  assume "offs < bo_size b \<and> \<not> fst (next_outcome w)"
  then show "fst (grate_wrap_bo w p offs) = None"
    using wrap_nomem [OF assms] by simp
next
  assume "bo_size b \<le> offs"
  then show "grate_wrap_bo w p offs = (None, w)" using wrap_range [OF assms] by simp
qed

lemma word_offsets_add:
  fixes a c s :: "'w::len word"
  assumes "a < s" "c < s - a"
  shows "a + c < s"
proof -
  have "unat (s - a) = unat s - unat a" using assms(1) by (simp add: unat_sub less_imp_le)
  with assms have l: "unat a + unat c < unat s" by (simp add: word_less_nat_alt)
  have "unat s < 2 ^ LENGTH('w)" by (rule unsigned_less)
  with l have "unat a + unat c < 2 ^ LENGTH('w)" by linarith
  then have "unat (a + c) = unat a + unat c" by (rule unat_add_lem [THEN iffD1])
  with l show ?thesis by (simp add: word_less_nat_alt)
qed

text \<open>
  Claim C9, amended. For offsets \<open>a < size\<close> and \<open>c < size - a\<close>, when both records can
  be allocated, wrapping at \<open>a\<close> and then wrapping the view at \<open>c\<close> succeeds and yields
  the same backing object, offset and size as wrapping at \<open>a + c\<close>; the backing memory is
  that of the original object.
\<close>

theorem wrap_bo_compose:
  assumes b: "bo_recs w p = Some b" and a: "a < bo_size b" and c: "c < bo_size b - a"
    and ok1: "fst (next_outcome w)" and ok2: "fst (next_outcome (snd (next_outcome w)))"
  shows "fst (grate_wrap_bo w p a) = Some (next_addr w) \<and>
    fst (grate_wrap_bo (snd (grate_wrap_bo w p a)) (next_addr w) c) = Some (Suc (next_addr w)) \<and>
    fst (grate_wrap_bo w p (a + c)) = Some (next_addr w) \<and>
    bo_recs (snd (grate_wrap_bo (snd (grate_wrap_bo w p a)) (next_addr w) c)) (Suc (next_addr w)) =
      Some \<lparr>bo = bo b, bo_size = bo_size b - a - c, offset = offset b + a + c\<rparr> \<and>
    bo_recs (snd (grate_wrap_bo w p (a + c))) (next_addr w) =
      Some \<lparr>bo = bo b, bo_size = bo_size b - a - c, offset = offset b + a + c\<rparr> \<and>
    host1x_bos (snd (grate_wrap_bo (snd (grate_wrap_bo w p a)) (next_addr w) c)) = host1x_bos w"
proof -
  let ?v = "\<lparr>bo = bo b, bo_size = bo_size b - a, offset = offset b + a\<rparr>"
  let ?w1 = "(snd (next_outcome w))\<lparr>next_addr := Suc (next_addr w),
        bo_recs := (bo_recs w)(next_addr w \<mapsto> ?v)\<rparr>"
  have e1: "grate_wrap_bo w p a = (Some (next_addr w), ?w1)"
    using wrap_ok [OF b a ok1] .
  have v: "bo_recs ?w1 (next_addr w) = Some ?v" by simp
  have c': "c < bo_size ?v" using c by simp
  have n1: "next_outcome ?w1 =
      (fst (next_outcome (snd (next_outcome w))),
       (snd (next_outcome (snd (next_outcome w))))\<lparr>next_addr := Suc (next_addr w),
        bo_recs := (bo_recs w)(next_addr w \<mapsto> ?v)\<rparr>)"
    by (auto simp: next_outcome_def split: list.splits)
  then have ok2': "fst (next_outcome ?w1)" using ok2 by simp
  have e2: "grate_wrap_bo ?w1 (next_addr w) c =
      (Some (Suc (next_addr w)),
       (snd (next_outcome ?w1))\<lparr>next_addr := Suc (Suc (next_addr w)),
          bo_recs := (bo_recs ?w1)(Suc (next_addr w) \<mapsto>
            \<lparr>bo = bo ?v, bo_size = bo_size ?v - c, offset = offset ?v + c\<rparr>)\<rparr>)"
    using wrap_ok [OF v c' ok2'] by simp
  have ac: "a + c < bo_size b" using a c by (rule word_offsets_add)
  have e3: "grate_wrap_bo w p (a + c) =
    (Some (next_addr w),
     (snd (next_outcome w))\<lparr>next_addr := Suc (next_addr w),
        bo_recs := (bo_recs w)(next_addr w \<mapsto>
          \<lparr>bo = bo b, bo_size = bo_size b - (a + c), offset = offset b + (a + c)\<rparr>)\<rparr>)"
    using wrap_ok [OF b ac ok1] .
  have hb: "host1x_bos (snd (next_outcome ?w1)) = host1x_bos w"
    by (simp add: n1 next_outcome_fields)
  show ?thesis
    unfolding e1 snd_conv fst_conv e2 e3
    by (simp add: hb diff_diff_eq add.assoc)
qed

lemmas fb_defs = grate_framebuffer_create_def calloc_fb_def host1x_framebuffer_create_def
  next_outcome_def set_fb_def free_fb_def host1x_framebuffer_free_def

text \<open>
  Claim C2. With the double-buffered flag set, when the record and the front buffer are
  allocated and the allocation of the back buffer fails, \<^verbatim>\<open>grate_framebuffer_create\<close>
  returns no framebuffer, the front buffer is freed and the record is freed: no record and
  no provider framebuffer is live that was not live before the call.
\<close>

theorem framebuffer_create_back_failure:
  assumes "flags AND dbl \<noteq> 0" and "outcomes w = True # True # False # rest"
  shows "grate_framebuffer_create dbl w width height format flags =
      (None, w\<lparr>outcomes := rest, next_addr := Suc (Suc (next_addr w)),
               fb_recs := (fb_recs w)(next_addr w := None),
               host1x_fbs := (host1x_fbs w)(Suc (next_addr w) := None)\<rparr>) \<and>
    fb_recs (snd (grate_framebuffer_create dbl w width height format flags)) (next_addr w) = None \<and>
    host1x_fbs (snd (grate_framebuffer_create dbl w width height format flags)) (Suc (next_addr w)) = None \<and>
    dom (fb_recs (snd (grate_framebuffer_create dbl w width height format flags))) \<subseteq> dom (fb_recs w) \<and>
    dom (host1x_fbs (snd (grate_framebuffer_create dbl w width height format flags))) \<subseteq> dom (host1x_fbs w)"
proof -
  have eq: "grate_framebuffer_create dbl w width height format flags =
      (None, w\<lparr>outcomes := rest, next_addr := Suc (Suc (next_addr w)),
               fb_recs := (fb_recs w)(next_addr w := None),
               host1x_fbs := (host1x_fbs w)(Suc (next_addr w) := None)\<rparr>)"
    using assms by (simp add: fb_defs Let_def)
  show ?thesis unfolding eq by (auto split: if_splits)
qed

text \<open>Claim C2 on the empty world, with the third allocation failing.\<close>

theorem framebuffer_create_back_failure_witness:
  "(1 :: 32 word) AND 1 \<noteq> 0 \<and> outcomes (w0\<lparr>outcomes := [True, True, False]\<rparr>) = [True, True, False] \<and>
   fst (grate_framebuffer_create (1 :: 32 word) (w0\<lparr>outcomes := [True, True, False]\<rparr>) 256 256 0 1) = None \<and>
   fb_recs (snd (grate_framebuffer_create (1 :: 32 word) (w0\<lparr>outcomes := [True, True, False]\<rparr>) 256 256 0 1)) = (\<lambda>_. None) \<and>
   host1x_fbs (snd (grate_framebuffer_create (1 :: 32 word) (w0\<lparr>outcomes := [True, True, False]\<rparr>) 256 256 0 1)) = (\<lambda>_. None)"
proof -
  have a: "(1 :: 32 word) AND 1 \<noteq> 0" by simp
  have b: "outcomes (w0\<lparr>outcomes := [True, True, False]\<rparr>) = True # True # False # []" by simp
  from framebuffer_create_back_failure [OF a b, of 256 256 0] a show ?thesis
    by (simp add: w0_def)
qed

lemma ex_world_rec: "bo_recs ex_world 0 = Some \<lparr>bo = Some 1, bo_size = 4, offset = 0\<rparr>"
  by (simp add: ex_world_def w0_def grate_bo_create_def calloc_bo_def host1x_bo_create_def
      next_outcome_def set_bo_def)

lemma ex_world_fields: "outcomes ex_world = [False]" "next_addr ex_world = 2"
  by (simp_all add: ex_world_def w0_def grate_bo_create_def calloc_bo_def host1x_bo_create_def
      next_outcome_def set_bo_def)

text \<open>
  Claim C3 as stated fails: the offset 1 is below the size 4 of the buffer object, and
  \<^verbatim>\<open>grate_wrap_bo\<close> returns no object because \<^verbatim>\<open>calloc\<close> fails.
\<close>

theorem wrap_bo_counterexample:
  "bo_recs ex_world 0 = Some \<lparr>bo = Some 1, bo_size = 4, offset = 0\<rparr> \<and>
   (1 :: 32 word) < bo_size \<lparr>bo = Some 1, bo_size = 4 :: 32 word, offset = 0\<rparr> \<and>
   fst (grate_wrap_bo ex_world 0 1) = None"
  by (simp add: ex_world_rec grate_wrap_bo_def calloc_bo_def next_outcome_def ex_world_fields
      word_le_nat_alt)

text \<open>Claim C3, amended, on a buffer object of four bytes.\<close>

theorem wrap_bo_view_witness:
  "bo_recs (ex_world\<lparr>outcomes := []\<rparr>) 0 = Some \<lparr>bo = Some 1, bo_size = 4, offset = 0\<rparr> \<and>
   fst (grate_wrap_bo (ex_world\<lparr>outcomes := []\<rparr>) 0 1) = Some 2 \<and>
   bo_recs (snd (grate_wrap_bo (ex_world\<lparr>outcomes := []\<rparr>) 0 1)) 2 =
     Some \<lparr>bo = Some 1, bo_size = 3, offset = 1\<rparr> \<and>
   grate_wrap_bo (ex_world\<lparr>outcomes := []\<rparr>) 0 4 = (None, ex_world\<lparr>outcomes := []\<rparr>) \<and>
   fst (grate_wrap_bo ex_world 0 1) = None"
proof -
  have a: "bo_recs (ex_world\<lparr>outcomes := []\<rparr>) 0 = Some \<lparr>bo = Some 1, bo_size = 4, offset = 0\<rparr>"
    by (simp add: ex_world_rec)
  have o: "fst (next_outcome (ex_world\<lparr>outcomes := []\<rparr>))" "\<not> fst (next_outcome ex_world)"
    by (simp_all add: next_outcome_def ex_world_fields)
  from wrap_bo_view [OF a, of 1] wrap_bo_view [OF a, of 4] wrap_bo_view [OF ex_world_rec, of 1] o a
  show ?thesis by (simp add: ex_world_fields)
qed

text \<open>
  Claim C9 as stated fails: with offsets 1 and 2 into a buffer object of four bytes the
  first wrap succeeds and the second returns no object, because its \<^verbatim>\<open>calloc\<close> fails.
\<close>

theorem wrap_bo_compose_counterexample:
  "bo_recs (ex_world\<lparr>outcomes := [True, False]\<rparr>) 0 = Some \<lparr>bo = Some 1, bo_size = 4, offset = 0\<rparr> \<and>
   (1 :: 32 word) < 4 \<and> (2 :: 32 word) < 4 - 1 \<and>
   fst (grate_wrap_bo (ex_world\<lparr>outcomes := [True, False]\<rparr>) 0 1) = Some 2 \<and>
   fst (grate_wrap_bo (snd (grate_wrap_bo (ex_world\<lparr>outcomes := [True, False]\<rparr>) 0 1)) 2 2) = None"
  by (simp add: ex_world_rec grate_wrap_bo_def calloc_bo_def next_outcome_def ex_world_fields
      set_bo_def word_le_nat_alt)

text \<open>Claim C9, amended, with offsets 1 and 2 into a buffer object of four bytes.\<close>

theorem wrap_bo_compose_witness:
  "bo_recs (ex_world\<lparr>outcomes := []\<rparr>) 0 = Some \<lparr>bo = Some 1, bo_size = 4, offset = 0\<rparr> \<and>
   bo_recs (snd (grate_wrap_bo (snd (grate_wrap_bo (ex_world\<lparr>outcomes := []\<rparr>) 0 1)) 2 2)) 3 =
     Some \<lparr>bo = Some 1, bo_size = 1, offset = 3\<rparr> \<and>
   bo_recs (snd (grate_wrap_bo (ex_world\<lparr>outcomes := []\<rparr>) 0 3)) 2 =
     Some \<lparr>bo = Some 1, bo_size = 1, offset = 3\<rparr>"
proof -
  have a: "bo_recs (ex_world\<lparr>outcomes := []\<rparr>) 0 = Some \<lparr>bo = Some 1, bo_size = 4, offset = 0\<rparr>"
    by (simp add: ex_world_rec)
  have o: "fst (next_outcome (ex_world\<lparr>outcomes := []\<rparr>))"
    "fst (next_outcome (snd (next_outcome (ex_world\<lparr>outcomes := []\<rparr>))))"
    by (simp_all add: next_outcome_def)
  have l: "(1 :: 32 word) < bo_size \<lparr>bo = Some 1, bo_size = 4 :: 32 word, offset = 0\<rparr>"
    "(2 :: 32 word) < bo_size \<lparr>bo = Some 1, bo_size = 4 :: 32 word, offset = 0\<rparr> - 1"
    by simp_all
  from wrap_bo_compose [OF a l o] a show ?thesis
    by (simp add: ex_world_fields)
qed

lemma w0_fields: "outcomes w0 = []" "next_addr w0 = 0"
  by (simp_all add: w0_def)

lemma ex_create:
  "grate_bo_create_from_data w0 2 0 [1, 2] =
     (Some 0, w0\<lparr>next_addr := 2,
        bo_recs := (\<lambda>_. None)(0 \<mapsto> \<lparr>bo = Some 1, bo_size = 2, offset = 0\<rparr>),
        host1x_bos := (\<lambda>_. None)(1 \<mapsto> [1, 2]), host1x_maps := {1}, flushed := [(1, 0, 2)]\<rparr>)"
  by (simp add: bo_defs w0_def Let_def)

text \<open>
  Claim C8 as stated fails: after a successful \<^verbatim>\<open>grate_bo_create_from_data\<close> of two bytes
  the backing object 1 of the returned buffer object is mapped.
\<close>

theorem create_from_data_counterexample:
  "fst (grate_bo_create_from_data w0 2 0 [1, 2]) = Some 0 \<and>
   bo_recs (snd (grate_bo_create_from_data w0 2 0 [1, 2])) 0 =
     Some \<lparr>bo = Some 1, bo_size = 2, offset = 0\<rparr> \<and>
   1 \<in> host1x_maps (snd (grate_bo_create_from_data w0 2 0 [1, 2]))"
  by (simp add: ex_create)

text \<open>Claim C8, amended, on two bytes of data.\<close>

theorem create_from_data_mapping_persists_witness:
  "fst (grate_bo_create_from_data w0 2 0 [1, 2]) = Some 0 \<and>
   bo_recs (snd (grate_bo_create_from_data w0 2 0 [1, 2])) 0 =
     Some \<lparr>bo = Some 1, bo_size = 2, offset = 0\<rparr> \<and>
   host1x_maps (snd (grate_bo_create_from_data w0 2 0 [1, 2])) = {1} \<and>
   flushed (snd (grate_bo_create_from_data w0 2 0 [1, 2])) = [(1, 0, 2)] \<and>
   1 \<in> host1x_maps (grate_bo_unmap (snd (grate_bo_create_from_data w0 2 0 [1, 2])) 0 (1, 0))"
proof -
  have c: "grate_bo_create_from_data w0 2 0 [1, 2] = (Some 0, snd (grate_bo_create_from_data w0 2 0 [1, 2]))"
    by (simp add: ex_create)
  have f: "fst (grate_bo_create_from_data w0 2 0 [1, 2]) = Some 0" by (simp add: ex_create)
  have m: "host1x_maps w0 = {}" "flushed w0 = []" by (simp_all add: w0_def)
  from create_from_data_mapping_persists [OF c, of "(1, 0)"] f m show ?thesis by simp
qed

text \<open>Claim C4 on two bytes of data.\<close>

theorem create_from_data_roundtrip_witness:
  "fst (grate_bo_create_from_data w0 2 0 [1, 2]) = Some 0 \<and>
   fst (grate_bo_map (snd (grate_bo_create_from_data w0 2 0 [1, 2])) 0) = Some (1, 0) \<and>
   mem_read (snd (grate_bo_map (snd (grate_bo_create_from_data w0 2 0 [1, 2])) 0)) (1, 0) 2 = Some [1, 2]"
proof -
  let ?w1 = "snd (grate_bo_create_from_data w0 2 0 [1, 2])"
  have c: "grate_bo_create_from_data w0 2 0 [1, 2] = (Some 0, ?w1)"
    by (simp add: ex_create)
  have l: "length [1, 2 :: byte] = unat (2 :: 32 word)" by simp
  have m: "fst (grate_bo_map ?w1 0) = Some (1, 0)"
    by (simp add: ex_create grate_bo_map_def host1x_bo_mmap_def next_outcome_def w0_fields)
  then have m2: "grate_bo_map ?w1 0 = (Some (1, 0), snd (grate_bo_map ?w1 0))"
    by (simp add: prod_eq_iff)
  have c0: "fst (grate_bo_create_from_data w0 2 0 [1, 2]) = Some 0"
    by (simp add: ex_create)
  from create_from_data_roundtrip [OF c l m2] c0 m show ?thesis by simp
qed

text \<open>Claim C7: a first call that reads 0x30, then a call on a file system that holds 0x20.\<close>

theorem tegra_chip_id_memoized_witness:
  "fst (tegra_chip_id (\<lambda>_. Some (Some 0x20))
     (snd (tegra_chip_id (\<lambda>_. Some (Some 0x30)) \<lparr>id_chip = TEGRA_INVALID, opened = [], chip_errs = []\<rparr>)))
   = TEGRA30"
proof -
  have "tegra_chip_id (\<lambda>_. Some (Some 0x30)) \<lparr>id_chip = TEGRA_INVALID, opened = [], chip_errs = []\<rparr>
    = (TEGRA30, \<lparr>id_chip = TEGRA30, opened = [''/sys/module/tegra_fuse/parameters/tegra_chip_id''],
         chip_errs = []\<rparr>)"
    by (simp add: tegra_chip_id_def chip_id_paths_def read_chip_id_def)
  with tegra_chip_id_memoized [of "\<lambda>_. Some (Some 0x20)" "\<lambda>_. Some (Some 0x30)"
      "\<lparr>id_chip = TEGRA_INVALID, opened = [], chip_errs = []\<rparr>" "[]"]
  show ?thesis by simp
qed

end
